theory Spec2Isabelle
  imports Complex_Main
begin

unbundle bit_operations_syntax

section \<open>Errors\<close>

text \<open>
  The exceptions the module can raise. Python raises \<open>ValueError\<close> twice in \<open>legendre\<close>,
  with two different messages; the two are kept apart here under the names the
  specification gives them. \<open>OverflowError\<close> is what Python raises when an integer is
  too large to be converted to a float, or to be a bound of \<open>xrange\<close>. \<open>TypeError\<close> is the error of \<open>meshgrid\<close>
  (\<open>meshgrid() take 1 or more arguments (0 given)\<close>); \<open>IndexError\<close>, \<open>ShapeError\<close>
  (numpy's \<open>ValueError\<close> for shapes that do not fit) and \<open>UnboundLocalError\<close> are the
  errors of the Python and numpy layer underneath.
\<close>

datatype error =
    InvalidOrder
  | InvalidArgument
  | OverflowError
  | TypeError
  | IndexError
  | ShapeError
  | UnboundLocalError

definition bind_e :: "error + 'a \<Rightarrow> ('a \<Rightarrow> error + 'b) \<Rightarrow> error + 'b" where
  "bind_e m k = (case m of Inl e \<Rightarrow> Inl e | Inr v \<Rightarrow> k v)"

section \<open>The memoization utility\<close>

text \<open>
  \<^verbatim>\<open>
  class Memoize:
      def __init__(self, f):
          self.f = f
          self.memo = {}
      def __call__(self, *args):
          if not args in self.memo:
              self.memo[args] = self.f(*args)
          return self.memo[args]
  \<close>
  The dictionary is a list of pairs of a key and a value. A Python dictionary finds a
  key by \<open>==\<close> (with a hash that agrees with it), so that two arguments that compare
  equal are one key: the comparison is the parameter \<open>eq\<close> of the lookup, which is
  equality for keys of one type such as integers, and \<open>py_eq\<close> below for keys of mixed
  types, where \<open>1\<close>, \<open>1.0\<close> and \<open>True\<close> are one key.
\<close>

definition dict_get :: "('k \<Rightarrow> 'k \<Rightarrow> bool) \<Rightarrow> ('k \<times> 'v) list \<Rightarrow> 'k \<Rightarrow> 'v option" where
  "dict_get eq d k = map_option snd (find (\<lambda>p. eq (fst p) k) d)"

fun dict_set :: "('k \<Rightarrow> 'k \<Rightarrow> bool) \<Rightarrow> ('k \<times> 'v) list \<Rightarrow> 'k \<Rightarrow> 'v \<Rightarrow> ('k \<times> 'v) list" where
  "dict_set eq [] k v = [(k, v)]"
| "dict_set eq (p # d) k v = (if eq (fst p) k then (fst p, v) # d else p # dict_set eq d k v)"

text \<open>
  The wrapped callable is run on a state of the world and returns its result and the
  new state, so that running it can be observed: a pure function \<open>g\<close> leaves the world
  as it is (\<open>pure_fn g\<close>), and \<open>counting g\<close> is \<open>g\<close> inside a wrapper that appends
  every argument it is run on to a log, the world of the call counter that the
  specification's test uses. A call of the memoized object takes the world, and returns
  the result, the object after the call and the world after the call. The value
  returned after a miss is the one just stored. The callable returns on every argument
  it is given, as the pure functions of the claims do.
\<close>

record ('k, 'v, 'w) Memoize =
  f :: "'k \<Rightarrow> 'w \<Rightarrow> 'v \<times> 'w"
  memo :: "('k \<times> 'v) list"

definition pure_fn :: "('k \<Rightarrow> 'v) \<Rightarrow> 'k \<Rightarrow> 'w \<Rightarrow> 'v \<times> 'w" where
  "pure_fn g k w = (g k, w)"


definition Memoize_init :: "('k \<Rightarrow> 'w \<Rightarrow> 'v \<times> 'w) \<Rightarrow> ('k, 'v, 'w) Memoize" where
  "Memoize_init g = \<lparr>f = g, memo = []\<rparr>"

definition Memoize_call ::
  "('k \<Rightarrow> 'k \<Rightarrow> bool) \<Rightarrow> ('k, 'v, 'w) Memoize \<Rightarrow> 'k \<Rightarrow> 'w \<Rightarrow> 'v \<times> ('k, 'v, 'w) Memoize \<times> 'w" where
  "Memoize_call eq self args w =
     (case dict_get eq (memo self) args of
        None \<Rightarrow>
          (let (v, w') = f self args w
           in (v, self\<lparr>memo := dict_set eq (memo self) args v\<rparr>, w'))
      | Some v \<Rightarrow> (v, self, w))"






text \<open>
  What every wrapper of a pure function \<open>g\<close> of integer keys satisfies, whatever calls
  were made on it: the wrapped callable is \<open>g\<close>, and each cached entry is a value of \<open>g\<close>.
\<close>

definition Memoize_inv :: "('k \<Rightarrow> 'v) \<Rightarrow> ('k, 'v, unit) Memoize \<Rightarrow> bool" where
  "Memoize_inv g self \<longleftrightarrow> f self = pure_fn g \<and> list_all (\<lambda>p. snd p = g (fst p)) (memo self)"


section \<open>The odd factorial product\<close>

text \<open>
  \<^verbatim>\<open>
  def odd_factorial_fn(k):
      f = k
      while k >= 3:
          k -= 2
          f *= k
      return f
  odd_factorial = Memoize(odd_factorial_fn)
  \<close>
  Python integers are unbounded: \<open>int\<close>. The keys of this cache are integers, compared
  by equality.
\<close>

function odd_factorial_loop :: "int \<Rightarrow> int \<Rightarrow> int" where
  "odd_factorial_loop k acc =
     (if k \<ge> 3 then odd_factorial_loop (k - 2) (acc * (k - 2)) else acc)"
  by pat_completeness auto
termination
  by (relation "measure (\<lambda>(k, acc). nat k)") auto

definition odd_factorial_fn :: "int \<Rightarrow> int" where
  "odd_factorial_fn k = odd_factorial_loop k k"

definition odd_factorial :: "(int, int, unit) Memoize" where
  "odd_factorial = Memoize_init (pure_fn odd_factorial_fn)"

section \<open>The Legendre evaluator\<close>

text \<open>
  \<^verbatim>\<open>
  def legendre(nu, mu, x):
      if mu < 0 or mu > nu:
          raise ValueError('require 0 <= mu <= nu, but mu=%d and nu=%d' % (nu, mu))
      if abs(x) > 1:
          raise ValueError('require -1 <= x <= 1, but x=%f', x)
      if mu == 0:
          p_nu = 1.0
      else:
          s = 1
          if mu & 1:
              s = -1
          z = sqrt(1 - x ** 2)
          p_nu = s * odd_factorial(2 * mu - 1) * z ** mu
      if mu == nu:
          return p_nu
      p_nu_prev = p_nu
      p_nu = x * (2 * mu + 1) * p_nu
      if nu == mu + 1:
          return p_nu
      for n in xrange(mu + 2, nu + 1):
          result = (x * (2 * n - 1) * p_nu - (n + mu - 1) * p_nu_prev) / (n - mu)
          p_nu_prev = p_nu
          p_nu = result
      return result
  \<close>
  Degree and order are Python integers (\<open>int\<close>); the argument and every term are
  floats in the source and real numbers here, so the rounding of float arithmetic and
  its overflow to infinity are outside the model. What is in the model is the
  exception at the border of the two types: wherever an integer meets a float in
  \<open>*\<close>, \<open>/\<close> or \<open>**\<close>, Python converts the integer to a float first and raises
  \<open>OverflowError\<close> when it is too large, which is from \<open>2^1024 - 2^970\<close> on (the first
  integer that rounds to \<open>2^1024\<close>). Python 2's \<open>xrange\<close> takes only integers that
  fit a C \<open>long\<close> and raises \<open>OverflowError\<close> for any other; the bound is
  \<open>sys.maxint\<close>, here that of a 64-bit build. The cache of \<open>odd_factorial\<close> is global state of
  the module: \<open>legendre\<close> takes the wrapper and returns it after the call. The variable
  \<open>result\<close> is bound only by the loop body, so it is an option in the loop state and
  reading it unbound is \<open>UnboundLocalError\<close>.
\<close>

definition float_limit :: int where
  "float_limit = 2 ^ 1024 - 2 ^ 970"

definition int_to_float :: "int \<Rightarrow> error + real" where
  "int_to_float n = (if \<bar>n\<bar> < float_limit then Inr (real_of_int n) else Inl OverflowError)"

definition sys_maxint :: int where
  "sys_maxint = 2 ^ 63 - 1"

definition xrange :: "int \<Rightarrow> int \<Rightarrow> error + int \<times> int" where
  "xrange start stop =
     (if - sys_maxint - 1 \<le> start \<and> start \<le> sys_maxint \<and>
         - sys_maxint - 1 \<le> stop \<and> stop \<le> sys_maxint
      then Inr (start, stop) else Inl OverflowError)"

record legendre_vars =
  p_nu_prev :: real
  p_nu :: real
  result :: "real option"

text \<open>
  One run of the loop body, the conversions in Python's order of evaluation:
  \<open>2 * n - 1\<close> for the first product, \<open>n + mu - 1\<close> for the second, \<open>n - mu\<close> for the
  division.
\<close>

definition legendre_body :: "int \<Rightarrow> real \<Rightarrow> int \<Rightarrow> legendre_vars \<Rightarrow> error + legendre_vars" where
  "legendre_body mu x n st =
     bind_e (int_to_float (2 * n - 1)) (\<lambda>a.
     bind_e (int_to_float (n + mu - 1)) (\<lambda>b.
     bind_e (int_to_float (n - mu)) (\<lambda>c.
       let r = (x * a * p_nu st - b * p_nu_prev st) / c
       in Inr \<lparr>p_nu_prev = p_nu st, p_nu = r, result = Some r\<rparr>)))"

function legendre_loop ::
  "int \<Rightarrow> real \<Rightarrow> int \<Rightarrow> int \<Rightarrow> legendre_vars \<Rightarrow> error + legendre_vars" where
  "legendre_loop mu x n stop st =
     (if n < stop then
        (case legendre_body mu x n st of
           Inl e \<Rightarrow> Inl e
         | Inr st' \<Rightarrow> legendre_loop mu x (n + 1) stop st')
      else Inr st)"
  by pat_completeness auto
termination
  by (relation "measure (\<lambda>(mu, x, n, stop, st). nat (stop - n))") auto

text \<open>
  The block \<open>Compute the initial term in the recursion\<close>: the term, or the error, and
  the cache after it. In \<open>s * odd_factorial(2 * mu - 1) * z ** mu\<close> the integer product
  is computed first, then the power, which converts \<open>mu\<close>, then the product of the two,
  which converts the integer product.
\<close>

definition legendre_initial ::
  "(int, int, unit) Memoize \<Rightarrow> int \<Rightarrow> real \<Rightarrow> (error + real) \<times> (int, int, unit) Memoize" where
  "legendre_initial cache mu x =
     (if mu = 0 then (Inr 1, cache)
      else
        let s = (if mu AND 1 \<noteq> 0 then - 1 else 1 :: int);
            z = sqrt (1 - x ^ 2);
            (fac, cache', u) = Memoize_call (=) cache (2 * mu - 1) ()
        in (bind_e (int_to_float mu) (\<lambda>m.
            bind_e (int_to_float (s * fac)) (\<lambda>c. Inr (c * z ^ nat mu))), cache'))"

definition legendre ::
  "(int, int, unit) Memoize \<Rightarrow> int \<Rightarrow> int \<Rightarrow> real \<Rightarrow> (error + real) \<times> (int, int, unit) Memoize" where
  "legendre cache nu mu x =
     (if mu < 0 \<or> mu > nu then (Inl InvalidOrder, cache)
      else if \<bar>x\<bar> > 1 then (Inl InvalidArgument, cache)
      else
        let (initial, cache') = legendre_initial cache mu x
        in (case initial of
              Inl e \<Rightarrow> (Inl e, cache')
            | Inr p0 \<Rightarrow>
                if mu = nu then (Inr p0, cache')
                else
                  (case int_to_float (2 * mu + 1) of
                     Inl e \<Rightarrow> (Inl e, cache')
                   | Inr a \<Rightarrow>
                       let p1 = x * a * p0
                       in if nu = mu + 1 then (Inr p1, cache')
                          else
                            (case xrange (mu + 2) (nu + 1) of
                               Inl e \<Rightarrow> (Inl e, cache')
                             | Inr (start, stop) \<Rightarrow>
                                 (case legendre_loop mu x start stop
                                         \<lparr>p_nu_prev = p0, p_nu = p1, result = None\<rparr> of
                                    Inl e \<Rightarrow> (Inl e, cache')
                                  | Inr st \<Rightarrow>
                                      (case result st of
                                         None \<Rightarrow> (Inl UnboundLocalError, cache')
                                       | Some r \<Rightarrow> (Inr r, cache')))))))"

subsection \<open>The algorithm as the specification words it\<close>

text \<open>
  The second description of the evaluator, written from the specification and compared
  with \<open>legendre\<close> below: the sign, the product of the odd integers from \<open>k\<close> down to 1
  (the empty product, 1, when \<open>k < 1\<close>), the seed with the real power
  \<open>(1 - x^2)^(mu/2)\<close>, and the three-term recursion as a function of the degree \<open>n\<close>
  (the seed at \<open>n = mu\<close>; the specification gives no term below \<open>mu\<close>, where this
  function is the seed as well).
\<close>

definition sign_spec :: "int \<Rightarrow> int" where
  "sign_spec mu = (if odd mu then - 1 else 1)"

definition oddFactorialProduct :: "int \<Rightarrow> int" where
  "oddFactorialProduct k = prod_list (filter odd [1..k])"

definition seed_spec :: "int \<Rightarrow> real \<Rightarrow> real" where
  "seed_spec mu x =
     (if mu = 0 then 1
      else real_of_int (sign_spec mu) * real_of_int (oddFactorialProduct (2 * mu - 1))
             * (1 - x ^ 2) powr (real_of_int mu / 2))"

function term_spec :: "int \<Rightarrow> real \<Rightarrow> int \<Rightarrow> real" where
  "term_spec mu x n =
     (if n \<le> mu then seed_spec mu x
      else if n = mu + 1 then x * real_of_int (2 * mu + 1) * seed_spec mu x
      else (x * real_of_int (2 * n - 1) * term_spec mu x (n - 1)
              - real_of_int (n + mu - 1) * term_spec mu x (n - 2)) / real_of_int (n - mu))"
  by pat_completeness auto
termination
  by (relation "measure (\<lambda>(mu, x, n). nat (n - mu))") auto

definition legendre_spec :: "int \<Rightarrow> int \<Rightarrow> real \<Rightarrow> real" where
  "legendre_spec nu mu x = term_spec mu x nu"

text \<open>
  What the loop of \<open>odd_factorial_fn\<close> multiplies for \<open>k \<ge> 1\<close>: the integers
  \<open>k, k - 2, k - 4, \<dots>\<close> that are at least 1.
\<close>

definition stride_prod :: "int \<Rightarrow> int" where
  "stride_prod k = prod_list (filter (\<lambda>i. even (k - i)) [1..k])"

section \<open>Arrays\<close>

text \<open>
  The module computes on numpy arrays. An array is its shape and its elements in
  row-major (C) order, the order numpy's \<open>reshape\<close> keeps; \<open>x.size\<close> is the product of
  the shape, and an array is well formed when it has that many elements. The functions
  of this section are numpy's, as far as the module uses them.
\<close>

datatype 'a ndarray = NDArray (shape: "nat list") (data: "'a list")

definition size_nd :: "'a ndarray \<Rightarrow> nat" where
  "size_nd a = prod_list (shape a)"

definition wf_nd :: "'a ndarray \<Rightarrow> bool" where
  "wf_nd a \<longleftrightarrow> length (data a) = size_nd a"

definition copy_nd :: "'a ndarray \<Rightarrow> 'a ndarray" where
  "copy_nd a = NDArray (shape a) (data a)"

text \<open>The row-major offset of a multi-index, and the multi-index of an offset.\<close>

fun ravel :: "nat list \<Rightarrow> nat list \<Rightarrow> nat" where
  "ravel (d # s) (i # idx) = i * prod_list s + ravel s idx"
| "ravel _ _ = 0"

fun unravel :: "nat list \<Rightarrow> nat \<Rightarrow> nat list" where
  "unravel [] k = []"
| "unravel (d # s) k = (k div prod_list s) # unravel s (k mod prod_list s)"

text \<open>
  \<open>a.reshape(newshape)\<close> and the assignment \<open>a.shape = newshape\<close>: one entry may be
  \<open>-1\<close> and is then computed from the size; the elements stay as they are.
\<close>

definition reshape :: "'a ndarray \<Rightarrow> int list \<Rightarrow> error + 'a ndarray" where
  "reshape a newshape =
     (let known = prod_list (filter (\<lambda>d. d \<noteq> - 1) newshape);
          unknowns = length (filter (\<lambda>d. d = - 1) newshape)
      in if list_ex (\<lambda>d. d < - 1) newshape then Inl ShapeError
         else if unknowns = 0 then
           (if known = int (size_nd a) then Inr (NDArray (map nat newshape) (data a))
            else Inl ShapeError)
         else if unknowns = 1 \<and> known \<noteq> 0 \<and> int (size_nd a) mod known = 0 then
           Inr (NDArray
                  (map (\<lambda>d. if d = - 1 then nat (int (size_nd a) div known) else nat d) newshape)
                  (data a))
         else Inl ShapeError)"

text \<open>
  Broadcasting. Two dimensions fit when they are equal or one of them is 1; shapes
  are aligned at the right, the shorter one padded with 1 on the left.
\<close>

definition broadcast_dim :: "nat \<Rightarrow> nat \<Rightarrow> error + nat" where
  "broadcast_dim a b =
     (if a = b then Inr a else if a = 1 then Inr b else if b = 1 then Inr a
      else Inl ShapeError)"

fun broadcast_aligned :: "nat list \<Rightarrow> nat list \<Rightarrow> error + nat list" where
  "broadcast_aligned (a # s) (b # t) =
     bind_e (broadcast_dim a b) (\<lambda>d. bind_e (broadcast_aligned s t) (\<lambda>r. Inr (d # r)))"
| "broadcast_aligned _ _ = Inr []"

definition broadcast_shapes :: "nat list \<Rightarrow> nat list \<Rightarrow> error + nat list" where
  "broadcast_shapes s t =
     (let n = max (length s) (length t)
      in broadcast_aligned (replicate (n - length s) 1 @ s) (replicate (n - length t) 1 @ t))"

fun broadcast_shape_list :: "nat list list \<Rightarrow> error + nat list" where
  "broadcast_shape_list [] = Inr []"
| "broadcast_shape_list (s # ss) = bind_e (broadcast_shape_list ss) (broadcast_shapes s)"

text \<open>
  The array \<open>a\<close> seen with the shape \<open>t\<close> it broadcasts to: the element at a multi-index
  of \<open>t\<close> is the element of \<open>a\<close> at the same index, with 0 along every axis where \<open>a\<close>
  has length 1.
\<close>

definition bcast_index :: "nat list \<Rightarrow> nat list \<Rightarrow> nat list" where
  "bcast_index s idx =
     map2 (\<lambda>d i. if d = 1 then 0 else i) s (drop (length idx - length s) idx)"

definition expand :: "'a ndarray \<Rightarrow> nat list \<Rightarrow> 'a ndarray" where
  "expand a t =
     NDArray t
       (map (\<lambda>k. data a ! ravel (shape a) (bcast_index (shape a) (unravel t k)))
          [0..<prod_list t])"

definition broadcast_arrays :: "'a ndarray list \<Rightarrow> error + 'a ndarray list" where
  "broadcast_arrays args =
     bind_e (broadcast_shape_list (map shape args)) (\<lambda>t. Inr (map (\<lambda>a. expand a t) args))"

text \<open>
  Element-wise arithmetic of two arrays, and of an array and a scalar. The two arrays
  of a binary operation may have different element types (dtypes); the operation on
  the elements, \<open>h\<close>, includes numpy's promotion of the two.
\<close>

definition nd_binop ::
  "('a \<Rightarrow> 'b \<Rightarrow> 'c) \<Rightarrow> 'a ndarray \<Rightarrow> 'b ndarray \<Rightarrow> error + 'c ndarray" where
  "nd_binop h a b =
     bind_e (broadcast_shapes (shape a) (shape b))
       (\<lambda>t. Inr (NDArray t (map2 h (data (expand a t)) (data (expand b t)))))"

definition nd_add :: "'a::plus ndarray \<Rightarrow> 'a ndarray \<Rightarrow> error + 'a ndarray" where
  "nd_add = nd_binop (+)"

definition scalar_mul :: "'a::times ndarray \<Rightarrow> 'a \<Rightarrow> 'a ndarray" where
  "scalar_mul a c = NDArray (shape a) (map (\<lambda>v. v * c) (data a))"

definition scalar_add :: "'a::plus ndarray \<Rightarrow> 'a \<Rightarrow> 'a ndarray" where
  "scalar_add a c = NDArray (shape a) (map (\<lambda>v. v + c) (data a))"

text \<open>\<open>np.ones(t, dtype=int)\<close>: an array of the integer 1.\<close>

definition ones :: "nat list \<Rightarrow> int ndarray" where
  "ones t = NDArray t (replicate (prod_list t) 1)"

text \<open>
  Elements with their dtype, for the three dtypes in which numpy's product with an
  integer array differs: \<open>int64\<close> and \<open>uint64\<close> hold integers (of their ranges),
  \<open>float64\<close> holds a real number (float arithmetic idealised, as in \<open>legendre\<close>).
  \<open>numpy_mul v m\<close> is the element of \<open>x * y\<close> for an element \<open>v\<close> of \<open>x\<close> and an
  element \<open>m\<close> of an \<open>int64\<close> array \<open>y\<close>: \<open>int64 * int64\<close> stays \<open>int64\<close> and wraps
  around, \<open>float64 * int64\<close> is \<open>float64\<close>, and \<open>uint64 * int64\<close> is promoted to
  \<open>float64\<close>, both operands converted first. The conversion of an integer rounds to
  53 significant bits, to nearest and to even on a tie (\<open>to_float64\<close>; integers of
  64 bits never overflow it).
\<close>

datatype scalar = I64 int | U64 int | F64 real

function bitlen :: "int \<Rightarrow> nat" where
  "bitlen n = (if n \<le> 0 then 0 else Suc (bitlen (n div 2)))"
  by pat_completeness auto
termination
  by (relation "measure nat") auto

definition to_float64 :: "int \<Rightarrow> int" where
  "to_float64 n =
     (let e = bitlen \<bar>n\<bar> - 53; q = \<bar>n\<bar> div 2 ^ e; r = \<bar>n\<bar> mod 2 ^ e
      in if e = 0 then n
         else sgn n * (if 2 * r > 2 ^ e \<or> (2 * r = 2 ^ e \<and> odd q) then (q + 1) * 2 ^ e
                       else q * 2 ^ e))"

definition wrap_int64 :: "int \<Rightarrow> int" where
  "wrap_int64 k = (k + 2 ^ 63) mod 2 ^ 64 - 2 ^ 63"

fun numpy_mul :: "scalar \<Rightarrow> int \<Rightarrow> scalar" where
  "numpy_mul (I64 n) m = I64 (wrap_int64 (n * m))"
| "numpy_mul (U64 n) m = F64 (real_of_int (to_float64 n) * real_of_int (to_float64 m))"
| "numpy_mul (F64 r) m = F64 (r * real_of_int (to_float64 m))"

text \<open>
  \<open>M[i, j]\<close> on a two-dimensional array; an index out of range, or an array that is
  not two-dimensional, is \<open>IndexError\<close> here.
\<close>

definition getitem2 :: "'a ndarray \<Rightarrow> nat \<Rightarrow> nat \<Rightarrow> error + 'a" where
  "getitem2 M i j =
     (case shape M of
        [r, c] \<Rightarrow> if i < r \<and> j < c then Inr (data M ! (i * c + j)) else Inl IndexError
      | _ \<Rightarrow> Inl IndexError)"

text \<open>
  \<open>np.atleast_1d(*arys)\<close>: every input of dimension 0 becomes a one-element vector;
  the result is the array itself when exactly one input was given, and the list of
  arrays otherwise (the empty list for no input). The same two forms are what
  \<open>meshgrid\<close> returns.
\<close>

datatype 'a grid = One "'a ndarray" | Many "'a ndarray list"

definition atleast_1d_one :: "'a ndarray \<Rightarrow> 'a ndarray" where
  "atleast_1d_one ary = (if shape ary = [] then NDArray [1] (data ary) else ary)"

definition atleast_1d :: "'a ndarray list \<Rightarrow> 'a grid" where
  "atleast_1d arys =
     (let res = map atleast_1d_one arys
      in case res of [r] \<Rightarrow> One r | _ \<Rightarrow> Many res)"

text \<open>
  \<open>a.swapaxes(0, 1)\<close>, in which the claims about the two index orders are stated:
  the first two entries of the shape change places, and so do the first two entries of
  every index.
\<close>

definition swap01 :: "'b list \<Rightarrow> 'b list" where
  "swap01 s = (case s of a # b # r \<Rightarrow> b # a # r | _ \<Rightarrow> s)"


section \<open>The coordinate transform\<close>

text \<open>
  \<^verbatim>\<open>
  CoordsVector = namedtuple('CoordsVector', 'x, y, z')

  def transform_coordinates(A, M):
      A1 = A.x
      A2 = A.y
      A3 = A.z
      B1 = A1 * M[0, 0] + A2 * M[0, 1] + A3 * M[0, 2] + M[0, 3]
      B2 = A1 * M[1, 0] + A2 * M[1, 1] + A3 * M[1, 2] + M[1, 3]
      B3 = A1 * M[2, 0] + A2 * M[2, 1] + A3 * M[2, 2] + M[2, 3]
      return CoordsVector(B1, B2, B3)
  \<close>
  The fields are called \<open>coord_x\<close>, \<open>coord_y\<close> and \<open>coord_z\<close>. The three assignments
  differ in the row of \<open>M\<close> only and are one function of the row,
  \<open>transform_row\<close>, which reads and combines in Python's order of evaluation.
\<close>

datatype 'a CoordsVector =
  CoordsVector (coord_x: "'a ndarray") (coord_y: "'a ndarray") (coord_z: "'a ndarray")

definition transform_row ::
  "'a::{plus,times} CoordsVector \<Rightarrow> 'a ndarray \<Rightarrow> nat \<Rightarrow> error + 'a ndarray" where
  "transform_row A M i =
     bind_e (getitem2 M i 0) (\<lambda>m0.
     bind_e (getitem2 M i 1) (\<lambda>m1.
     bind_e (nd_add (scalar_mul (coord_x A) m0) (scalar_mul (coord_y A) m1)) (\<lambda>t.
     bind_e (getitem2 M i 2) (\<lambda>m2.
     bind_e (nd_add t (scalar_mul (coord_z A) m2)) (\<lambda>u.
     bind_e (getitem2 M i 3) (\<lambda>m3.
     Inr (scalar_add u m3)))))))"

definition transform_coordinates ::
  "'a::{plus,times} CoordsVector \<Rightarrow> 'a ndarray \<Rightarrow> error + 'a CoordsVector" where
  "transform_coordinates A M =
     bind_e (transform_row A M 0) (\<lambda>B1.
     bind_e (transform_row A M 1) (\<lambda>B2.
     bind_e (transform_row A M 2) (\<lambda>B3.
     Inr (CoordsVector B1 B2 B3))))"

section \<open>The grid generator\<close>

text \<open>
  \<^verbatim>\<open>
  def meshgrid(*xi, **kwargs):
      copy = kwargs.get('copy', True)
      args = np.atleast_1d(*xi)
      if not isinstance(args, list):
          if args.size > 0:
              return args.copy() if copy else args
          else:
              raise TypeError('meshgrid() take 1 or more arguments (0 given)')
      sparse = kwargs.get('sparse', False)
      indexing = kwargs.get('indexing', 'xy')  # 'ij'
      ndim = len(args)
      s0 = (1,) * ndim
      output = [x.reshape(s0[:i] + (-1, ) + s0[i + 1::]) for i, x in enumerate(args)]
      shape = [x.size for x in output]
      if indexing == 'xy':
          # switch first and second axis
          output[0].shape = (1, -1) + (1, ) * (ndim - 2)
          output[1].shape = (-1, 1) + (1, ) * (ndim - 2)
          shape[0], shape[1] = shape[1], shape[0]
      if sparse:
          if copy:
              return [x.copy() for x in output]
          else:
              return output
      else:
          # Return the full N-D matrix (not only the 1-D vector)
          if copy:
              mult_fact = np.ones(shape, dtype=int)
              return [x * mult_fact for x in output]
          else:
              return np.broadcast_arrays(*output)
  \<close>
  The keyword arguments are a record of optional values, read with their defaults as
  \<open>kwargs.get\<close> does. The inputs are arrays already (numpy converts what it is given).
  The first argument of the model, \<open>mul\<close>, is the product of an element of the inputs
  with an element of an integer array, as numpy computes it for the inputs' dtype
  (\<open>numpy_mul\<close> above, or the multiplication of a type that holds integers): it is
  what \<open>x * mult_fact\<close> applies, \<open>mult_fact\<close> being an array of the integer 1.
  A copy and a view are the same value, so the model tells \<open>copy\<close> apart only in which
  branch runs. Reading \<open>output[0]\<close> or \<open>output[1]\<close> of a list that is too short is
  Python's \<open>IndexError\<close>.
\<close>

record kwargs =
  kw_copy :: "bool option"
  kw_sparse :: "bool option"
  kw_indexing :: "string option"

definition no_kwargs :: kwargs where
  "no_kwargs = \<lparr>kw_copy = None, kw_sparse = None, kw_indexing = None\<rparr>"

definition kwargs_get :: "'b option \<Rightarrow> 'b \<Rightarrow> 'b" where
  "kwargs_get v d = (case v of None \<Rightarrow> d | Some u \<Rightarrow> u)"

fun sequence_e :: "(error + 'b) list \<Rightarrow> error + 'b list" where
  "sequence_e [] = Inr []"
| "sequence_e (m # ms) = bind_e m (\<lambda>v. bind_e (sequence_e ms) (\<lambda>vs. Inr (v # vs)))"

text \<open>The shape \<open>s0[:i] + (-1, ) + s0[i + 1::]\<close> with \<open>s0 = (1,) * ndim\<close>.\<close>

definition axis_shape :: "nat \<Rightarrow> nat \<Rightarrow> int list" where
  "axis_shape ndim i =
     (let s0 = replicate ndim 1 in take i s0 @ [- 1] @ drop (i + 1) s0)"

text \<open>The branch \<open>indexing == 'xy'\<close>: the new list of outputs and the new shape.\<close>

definition switch_xy ::
  "'a ndarray list \<Rightarrow> nat list \<Rightarrow> error + 'a ndarray list \<times> nat list" where
  "switch_xy output shp =
     (let ndim = length output
      in if length output \<le> 0 then Inl IndexError
         else
           bind_e (reshape (output ! 0) ([1, - 1] @ replicate (ndim - 2) 1)) (\<lambda>o0.
             if length output \<le> 1 then Inl IndexError
             else
               bind_e (reshape (output ! 1) ([- 1, 1] @ replicate (ndim - 2) 1)) (\<lambda>o1.
                 if length shp \<le> 1 then Inl IndexError
                 else Inr (output[0 := o0, 1 := o1], shp[0 := shp ! 1, 1 := shp ! 0]))))"

definition meshgrid ::
  "('a \<Rightarrow> int \<Rightarrow> 'a) \<Rightarrow> 'a ndarray list \<Rightarrow> kwargs \<Rightarrow> error + 'a grid" where
  "meshgrid mul xi kwargs =
     (let copy = kwargs_get (kw_copy kwargs) True
      in case atleast_1d xi of
           One args \<Rightarrow>
             if size_nd args > 0 then Inr (One (if copy then copy_nd args else args))
             else Inl TypeError
         | Many args \<Rightarrow>
             let sparse = kwargs_get (kw_sparse kwargs) False;
                 indexing = kwargs_get (kw_indexing kwargs) ''xy'';
                 ndim = length args
             in bind_e (sequence_e (map (\<lambda>(i, x). reshape x (axis_shape ndim i))
                                      (enumerate 0 args))) (\<lambda>output.
                  let shp = map size_nd output
                  in bind_e (if indexing = ''xy'' then switch_xy output shp
                             else Inr (output, shp)) (\<lambda>(output, shp).
                       if sparse then
                         (if copy then Inr (Many (map copy_nd output)) else Inr (Many output))
                       else if copy then
                         (let mult_fact = ones shp
                          in bind_e (sequence_e (map (\<lambda>x. nd_binop mul x mult_fact) output))
                               (\<lambda>r. Inr (Many r)))
                       else bind_e (broadcast_arrays output) (\<lambda>r. Inr (Many r)))))"

section \<open>Closed forms used in the proofs\<close>

text \<open>
  What \<open>meshgrid\<close> builds for two or more inputs, written without the steps of the
  code. With \<open>ndim\<close> inputs, the array made from input \<open>i\<close> has length 1 along every
  axis but one, \<open>axis_of xy i\<close>, where it has all its elements: axis \<open>i\<close> under
  \<open>'ij'\<close>; under \<open>'xy'\<close> axis 1 for input 0, axis 0 for input 1 and axis \<open>i\<close> for the
  others. \<open>grid_outputs\<close> is the list \<open>output\<close>, \<open>grid_shape\<close> the list \<open>shape\<close> and
  \<open>dense_grid\<close> every output seen with the full shape; \<open>map_nd h\<close> applies \<open>h\<close> to
  every element of an array.
\<close>

definition axis_of :: "bool \<Rightarrow> nat \<Rightarrow> nat" where
  "axis_of xy i = (if xy then (if i = 0 then 1 else if i = 1 then 0 else i) else i)"

definition axis_unit :: "nat \<Rightarrow> nat \<Rightarrow> nat \<Rightarrow> nat list" where
  "axis_unit n q m = (replicate n 1)[q := m]"

definition axis_array :: "nat \<Rightarrow> nat \<Rightarrow> 'a ndarray \<Rightarrow> 'a ndarray" where
  "axis_array n q a = NDArray (axis_unit n q (size_nd a)) (data a)"

definition grid_outputs :: "bool \<Rightarrow> 'a ndarray list \<Rightarrow> 'a ndarray list" where
  "grid_outputs xy xi =
     map (\<lambda>i. axis_array (length xi) (axis_of xy i) (xi ! i)) [0..<length xi]"

definition grid_shape :: "bool \<Rightarrow> 'a ndarray list \<Rightarrow> nat list" where
  "grid_shape xy xi = (if xy then swap01 (map size_nd xi) else map size_nd xi)"

definition map_nd :: "('a \<Rightarrow> 'b) \<Rightarrow> 'a ndarray \<Rightarrow> 'b ndarray" where
  "map_nd h a = NDArray (shape a) (map h (data a))"

definition dense_grid :: "bool \<Rightarrow> 'a ndarray list \<Rightarrow> 'a ndarray list" where
  "dense_grid xy xi = map (\<lambda>a. expand a (grid_shape xy xi)) (grid_outputs xy xi)"

text \<open>
  \<open>B[i]\<close> for a coordinate triple, and the entry \<open>M[i, j]\<close> of a well-formed
  two-dimensional array.
\<close>

definition component :: "'a CoordsVector \<Rightarrow> nat \<Rightarrow> 'a ndarray" where
  "component B i = (if i = 0 then coord_x B else if i = 1 then coord_y B else coord_z B)"

definition entry :: "'a ndarray \<Rightarrow> nat \<Rightarrow> nat \<Rightarrow> 'a" where
  "entry M i j = data M ! ravel (shape M) [i, j]"

subsection \<open>Example inputs\<close>

text \<open>
  A coordinate triple of two points, an affine matrix and the same matrix with another
  last row; the two vectors \<open>[0, 1]\<close> and \<open>[0, 1, 2]\<close> of the specification's example,
  as \<open>int64\<close> arrays; and two \<open>uint64\<close> vectors, the first holding \<open>2^64 - 1\<close>.
\<close>

definition example_coords :: "int CoordsVector" where
  "example_coords = CoordsVector (NDArray [2] [1, 2]) (NDArray [2] [3, 4]) (NDArray [2] [5, 6])"

definition example_affine :: "int ndarray" where
  "example_affine = NDArray [4, 4] [1, 0, 0, 5,  0, 2, 0, 6,  0, 0, 3, 7,  0, 0, 0, 1]"

definition example_affine' :: "int ndarray" where
  "example_affine' = NDArray [4, 4] [1, 0, 0, 5,  0, 2, 0, 6,  0, 0, 3, 7,  9, 9, 9, 9]"

definition example_vectors :: "scalar ndarray list" where
  "example_vectors =
     [NDArray [2] [I64 0, I64 1], NDArray [3] [I64 0, I64 1, I64 2]]"

definition example_uint64 :: "scalar ndarray list" where
  "example_uint64 =
     [NDArray [1] [U64 18446744073709551615], NDArray [2] [U64 0, U64 1]]"

declare odd_factorial_loop.simps [simp del]
declare legendre_loop.simps [simp del]
declare term_spec.simps [simp del]
declare bitlen.simps [simp del]

section \<open>Properties of the memoization utility\<close>

lemma bind_e_Inr [simp]: "bind_e (Inr v) k = k v"
  by (simp add: bind_e_def)

lemma bind_e_Inl [simp]: "bind_e (Inl e) k = Inl e"
  by (simp add: bind_e_def)

lemma dict_get_None: "dict_get eq d k = None \<longleftrightarrow> (\<forall>p\<in>set d. \<not> eq (fst p) k)"
  by (induction d) (auto simp: dict_get_def)

lemma dict_get_Some:
  "dict_get eq d k = Some v \<Longrightarrow> \<exists>p\<in>set d. eq (fst p) k \<and> snd p = v"
  by (induction d) (auto simp: dict_get_def split: if_splits)

lemma dict_set_miss: "dict_get eq d k = None \<Longrightarrow> dict_set eq d k v = d @ [(k, v)]"
  by (induction d) (auto simp: dict_get_None)

lemma Memoize_call_miss:
  "dict_get eq (memo self) a = None \<Longrightarrow>
   Memoize_call eq self a w
     = (fst (f self a w), self\<lparr>memo := memo self @ [(a, fst (f self a w))]\<rparr>, snd (f self a w))"
  by (simp add: Memoize_call_def split_beta dict_set_miss)

lemma Memoize_call_hit:
  "dict_get eq (memo self) a = Some v \<Longrightarrow> Memoize_call eq self a w = (v, self, w)"
  by (simp add: Memoize_call_def)

lemma Memoize_inv_init: "Memoize_inv g (Memoize_init (pure_fn g))"
  by (simp add: Memoize_inv_def Memoize_init_def)

lemma Memoize_call_inv:
  assumes "Memoize_inv g self"
  shows "fst (Memoize_call (=) self a ()) = g a \<and>
         Memoize_inv g (fst (snd (Memoize_call (=) self a ())))"
proof (cases "dict_get (=) (memo self) a")
  case None
  with assms show ?thesis
    by (simp add: Memoize_call_miss Memoize_inv_def pure_fn_def)
next
  case (Some v)
  then obtain p where "p \<in> set (memo self)" and "fst p = a" and "snd p = v"
    using dict_get_Some [of "(=)" "memo self" a v] by auto
  with assms have "v = g a"
    by (auto simp: Memoize_inv_def list_all_iff)
  with Some assms show ?thesis
    by (simp add: Memoize_call_hit)
qed







section \<open>Properties of the odd factorial product\<close>

lemma stride_prod_low: "k < 1 \<Longrightarrow> stride_prod k = 1"
  by (simp add: stride_prod_def)

lemma stride_prod_one: "stride_prod 1 = 1"
  by (simp add: stride_prod_def)

lemma stride_prod_step: "2 \<le> k \<Longrightarrow> stride_prod k = stride_prod (k - 2) * k"
proof -
  assume k: "2 \<le> k"
  have "[1..k] = [1..k - 2] @ [k - 1, k]"
    using k upto_rec2 [of 1 k] upto_rec2 [of 1 "k - 1"] by simp
  then show ?thesis
    by (simp add: stride_prod_def)
qed

lemma stride_prod_rec: "1 \<le> k \<Longrightarrow> stride_prod k = stride_prod (k - 2) * k"
  using stride_prod_step [of k] by (cases "k = 1") (simp_all add: stride_prod_one stride_prod_low)

lemma odd_factorial_loop_eq:
  "1 \<le> k \<Longrightarrow> odd_factorial_loop k acc = acc * stride_prod (k - 2)"
proof (induction k acc rule: odd_factorial_loop.induct)
  case (1 k acc)
  show ?case
  proof (cases "3 \<le> k")
    case True
    then have "odd_factorial_loop k acc = odd_factorial_loop (k - 2) (acc * (k - 2))"
      by (subst odd_factorial_loop.simps) simp
    also have "\<dots> = acc * (k - 2) * stride_prod (k - 2 - 2)"
      using True by (intro "1.IH") simp_all
    also have "\<dots> = acc * stride_prod (k - 2)"
      using True stride_prod_rec [of "k - 2"] by (simp add: mult.commute mult.left_commute)
    finally show ?thesis .
  next
    case False
    then show ?thesis
      by (subst odd_factorial_loop.simps) (simp add: stride_prod_low)
  qed
qed

lemma odd_factorial_fn_stride: "1 \<le> k \<Longrightarrow> odd_factorial_fn k = stride_prod k"
  by (simp add: odd_factorial_fn_def odd_factorial_loop_eq stride_prod_rec mult.commute)

lemma odd_factorial_fn_small: "k < 3 \<Longrightarrow> odd_factorial_fn k = k"
  by (simp add: odd_factorial_fn_def odd_factorial_loop.simps)

lemma stride_prod_odd: "odd k \<Longrightarrow> stride_prod k = prod_list (filter odd [1..k])"
proof -
  assume "odd k"
  then have "filter (\<lambda>i. even (k - i)) [1..k] = filter odd [1..k]"
    by (intro filter_cong) auto
  then show ?thesis by (simp add: stride_prod_def)
qed

lemma stride_prod_even: "even k \<Longrightarrow> stride_prod k = prod_list (filter even [1..k])"
proof -
  assume "even k"
  then have "filter (\<lambda>i. even (k - i)) [1..k] = filter even [1..k]"
    by (intro filter_cong) auto
  then show ?thesis by (simp add: stride_prod_def)
qed


text \<open>
  Claim C4, as the code has it. Called through the memoizing wrapper with any cache
  that earlier calls can have left, \<open>odd_factorial\<close> returns what \<open>odd_factorial_fn\<close>
  computes. For every odd \<open>k \<ge> 1\<close> that is the product of the odd integers from \<open>k\<close>
  down to 1 (for an even \<open>k \<ge> 2\<close>, the product of the even integers from \<open>k\<close> down to
  2); for every \<open>k < 1\<close> the loop body never runs and the result is \<open>k\<close> itself.
\<close>

theorem odd_factorial_value:
  assumes "Memoize_inv odd_factorial_fn cache"
  shows "fst (Memoize_call (=) cache k ()) = odd_factorial_fn k \<and>
         (1 \<le> k \<and> odd k \<longrightarrow> odd_factorial_fn k = prod_list (filter odd [1..k])) \<and>
         (2 \<le> k \<and> even k \<longrightarrow> odd_factorial_fn k = prod_list (filter even [1..k])) \<and>
         (k < 1 \<longrightarrow> odd_factorial_fn k = k)"
  using Memoize_call_inv [OF assms, of k]
  by (simp add: odd_factorial_fn_stride stride_prod_odd stride_prod_even odd_factorial_fn_small)

theorem odd_factorial_value_witness:
  "Memoize_inv odd_factorial_fn odd_factorial \<and>
   fst (Memoize_call (=) odd_factorial 7 ()) = odd_factorial_fn 7 \<and>
   odd_factorial_fn 7 = prod_list (filter odd [1..7]) \<and> odd_factorial_fn 7 = 105 \<and>
   odd_factorial_fn 4 = prod_list (filter even [1..4]) \<and>
   odd_factorial_fn (- 3) = - 3"
proof -
  have inv: "Memoize_inv odd_factorial_fn odd_factorial"
    by (simp add: odd_factorial_def Memoize_inv_init)
  have "prod_list (filter odd [1..7 :: int]) = 105"
    by code_simp
  with inv odd_factorial_value [OF inv, of 7] odd_factorial_value [OF inv, of 4]
    odd_factorial_value [OF inv, of "- 3"]
  show ?thesis by simp
qed

text \<open>
  The claim as stated fails below 1: \<open>odd_factorial (- 1)\<close> is \<open>- 1\<close>, not 1.
\<close>

theorem odd_factorial_below_one_counterexample:
  "fst (Memoize_call (=) odd_factorial (- 1) ()) = - 1 \<and> odd_factorial_fn (- 1) = - 1 \<and>
   odd_factorial_fn (- 1) \<noteq> 1"
  by (simp add: odd_factorial_def Memoize_init_def Memoize_call_def dict_get_def pure_fn_def
      odd_factorial_fn_def odd_factorial_loop.simps Let_def)

text \<open>The size of the product: it grows with its argument, and leaves the floats at 301.\<close>

lemma prod_list_ge_one: "\<forall>v\<in>set vs. 1 \<le> v \<Longrightarrow> 1 \<le> prod_list (vs :: int list)"
proof (induction vs)
  case Nil
  then show ?case by simp
next
  case (Cons v vs)
  then have "1 \<le> v" and "1 \<le> prod_list vs" by simp_all
  then have "1 * 1 \<le> v * prod_list vs"
    by (intro mult_mono) simp_all
  then show ?case by simp
qed

lemma stride_prod_ge_one: "1 \<le> stride_prod k"
  unfolding stride_prod_def by (rule prod_list_ge_one) auto

lemma stride_prod_step_le: "1 \<le> k \<Longrightarrow> stride_prod (k - 2) \<le> stride_prod k"
proof -
  assume k: "1 \<le> k"
  have "stride_prod (k - 2) * 1 \<le> stride_prod (k - 2) * k"
    using k stride_prod_ge_one [of "k - 2"] by (intro mult_left_mono) simp_all
  then show ?thesis
    using stride_prod_rec [OF k] by simp
qed

lemma odd_factorial_fn_mono:
  assumes "1 \<le> m"
  shows "odd_factorial_fn (2 * m - 1) \<le> odd_factorial_fn (2 * (m + int j) - 1)"
proof (induction j)
  case 0
  then show ?case by simp
next
  case (Suc j)
  have "stride_prod (2 * (m + int (Suc j)) - 1 - 2) \<le> stride_prod (2 * (m + int (Suc j)) - 1)"
    using assms by (intro stride_prod_step_le) simp
  moreover have "2 * (m + int (Suc j)) - 1 - 2 = 2 * (m + int j) - 1"
    by simp
  ultimately have "odd_factorial_fn (2 * (m + int j) - 1) \<le> odd_factorial_fn (2 * (m + int (Suc j)) - 1)"
    using assms by (simp add: odd_factorial_fn_stride)
  with Suc show ?case by simp
qed

lemma odd_factorial_fn_le:
  "1 \<le> m \<Longrightarrow> m \<le> m' \<Longrightarrow> odd_factorial_fn (2 * m - 1) \<le> odd_factorial_fn (2 * m' - 1)"
  using odd_factorial_fn_mono [of m "nat (m' - m)"] by simp

lemma odd_factorial_299: "odd_factorial_fn 299 < float_limit"
  unfolding float_limit_def by code_simp

lemma odd_factorial_301: "float_limit \<le> odd_factorial_fn 301"
  unfolding float_limit_def by code_simp

lemma odd_factorial_fits:
  "1 \<le> mu \<Longrightarrow> mu \<le> 150 \<Longrightarrow> 1 \<le> odd_factorial_fn (2 * mu - 1) \<and>
     odd_factorial_fn (2 * mu - 1) < float_limit"
  using odd_factorial_fn_le [of mu 150] odd_factorial_299 stride_prod_ge_one [of "2 * mu - 1"]
  by (simp add: odd_factorial_fn_stride)

lemma odd_factorial_too_large:
  "151 \<le> mu \<Longrightarrow> float_limit \<le> odd_factorial_fn (2 * mu - 1)"
  using odd_factorial_fn_le [of 151 mu] odd_factorial_301 by simp


section \<open>Properties of the Legendre evaluator\<close>

lemma odd_bit_test: "(mu AND 1 \<noteq> 0) = odd mu" for mu :: int
  by (simp add: and_one_eq odd_iff_mod_2_eq_one)

lemma sqrt_power_powr:
  "0 \<le> y \<Longrightarrow> 0 < m \<Longrightarrow> sqrt y ^ nat m = y powr (real_of_int m / 2)"
proof (cases "y = 0")
  case True
  assume "0 < m"
  with True show ?thesis by (simp add: zero_power)
next
  case False
  assume "0 \<le> y" "0 < m"
  with False have y: "0 < y" by simp
  have "sqrt y ^ nat m = (y powr (1 / 2)) powr real (nat m)"
    using y by (simp add: powr_half_sqrt powr_realpow)
  also have "\<dots> = y powr (real_of_int m / 2)"
    using \<open>0 < m\<close> by (simp add: powr_powr)
  finally show ?thesis .
qed

lemma int_to_float_fits: "\<bar>n\<bar> < float_limit \<Longrightarrow> int_to_float n = Inr (real_of_int n)"
  by (simp add: int_to_float_def)

lemma int_to_float_error: "int_to_float n = Inl e \<Longrightarrow> e = OverflowError"
  by (simp add: int_to_float_def split: if_splits)

lemma float_limit_large: "1000 < float_limit"
  unfolding float_limit_def by simp

lemma sys_maxint_fits: "2 * (sys_maxint + 1) < float_limit"
  unfolding float_limit_def sys_maxint_def by simp

lemma xrange_fits:
  "- sys_maxint - 1 \<le> start \<Longrightarrow> start \<le> stop \<Longrightarrow> stop \<le> sys_maxint \<Longrightarrow>
   xrange start stop = Inr (start, stop)"
  by (simp add: xrange_def)

lemma xrange_outcome:
  "(xrange start stop = Inl e \<longrightarrow> e = OverflowError) \<and>
   (xrange start stop = Inr p \<longrightarrow> p = (start, stop))"
  by (auto simp: xrange_def split: if_splits)

lemma legendre_body_fits:
  assumes "0 \<le> mu" and "mu \<le> n" and "2 * n < float_limit"
  shows "legendre_body mu x n st =
     Inr \<lparr>p_nu_prev = p_nu st,
          p_nu = (x * real_of_int (2 * n - 1) * p_nu st
                    - real_of_int (n + mu - 1) * p_nu_prev st) / real_of_int (n - mu),
          result = Some ((x * real_of_int (2 * n - 1) * p_nu st
                    - real_of_int (n + mu - 1) * p_nu_prev st) / real_of_int (n - mu))\<rparr>"
proof -
  have "\<bar>2 * n - 1\<bar> < float_limit" "\<bar>n + mu - 1\<bar> < float_limit" "\<bar>n - mu\<bar> < float_limit"
    using assms float_limit_large by (auto simp: abs_if)
  then show ?thesis
    by (simp add: legendre_body_def int_to_float_fits Let_def)
qed

lemma legendre_body_error: "legendre_body mu x n st = Inl e \<Longrightarrow> e = OverflowError"
  by (auto simp: legendre_body_def bind_e_def Let_def int_to_float_def split: if_splits)

lemma legendre_body_result:
  "legendre_body mu x n st = Inr st' \<Longrightarrow> result st' \<noteq> None"
  by (auto simp: legendre_body_def bind_e_def Let_def int_to_float_def split: if_splits)

lemma legendre_loop_term:
  "mu + 2 \<le> n \<Longrightarrow> n \<le> stop \<Longrightarrow> 0 \<le> mu \<Longrightarrow> 2 * (stop - 1) < float_limit \<Longrightarrow>
   p_nu st = term_spec mu x (n - 1) \<Longrightarrow> p_nu_prev st = term_spec mu x (n - 2) \<Longrightarrow>
   (n = stop \<longrightarrow> result st = Some (p_nu st)) \<Longrightarrow>
   \<exists>st'. legendre_loop mu x n stop st = Inr st' \<and>
         result st' = Some (term_spec mu x (stop - 1))"
proof (induction mu x n stop st rule: legendre_loop.induct)
  case (1 mu x n stop st)
  show ?case
  proof (cases "n < stop")
    case True
    define r where "r = (x * real_of_int (2 * n - 1) * p_nu st
                    - real_of_int (n + mu - 1) * p_nu_prev st) / real_of_int (n - mu)"
    define st1 where "st1 = \<lparr>p_nu_prev = p_nu st, p_nu = r, result = Some r\<rparr>"
    have body: "legendre_body mu x n st = Inr st1"
      unfolding st1_def r_def using "1.prems"(1,3,4) True
      by (intro legendre_body_fits) simp_all
    have t: "r = term_spec mu x n"
      unfolding r_def using "1.prems"(1,5,6) by (subst term_spec.simps) simp
    have "\<exists>st'. legendre_loop mu x (n + 1) stop st1 = Inr st' \<and>
         result st' = Some (term_spec mu x (stop - 1))"
    proof (rule "1.IH" [OF True body])
      show "mu + 2 \<le> n + 1" using "1.prems"(1) by simp
      show "n + 1 \<le> stop" using True by simp
      show "0 \<le> mu" by (rule "1.prems"(3))
      show "2 * (stop - 1) < float_limit" by (rule "1.prems"(4))
      show "p_nu st1 = term_spec mu x (n + 1 - 1)" using t by (simp add: st1_def)
      show "p_nu_prev st1 = term_spec mu x (n + 1 - 2)"
        using "1.prems"(5) by (simp add: st1_def)
      show "n + 1 = stop \<longrightarrow> result st1 = Some (p_nu st1)"
        by (simp add: st1_def)
    qed
    with True body show ?thesis
      by (subst legendre_loop.simps) simp
  next
    case False
    with "1.prems" have "n = stop" by simp
    with "1.prems" show ?thesis
      by (subst legendre_loop.simps) simp
  qed
qed

lemma legendre_loop_outcome:
  "(legendre_loop mu x n stop st = Inl e \<longrightarrow> e = OverflowError) \<and>
   (legendre_loop mu x n stop st = Inr st' \<longrightarrow> n < stop \<or> result st \<noteq> None \<longrightarrow>
      result st' \<noteq> None)"
proof (induction mu x n stop st rule: legendre_loop.induct)
  case (1 mu x n stop st)
  show ?case
  proof (cases "n < stop")
    case True
    show ?thesis
    proof (cases "legendre_body mu x n st")
      case (Inl e')
      with True have "legendre_loop mu x n stop st = Inl e'"
        by (subst legendre_loop.simps) simp
      with Inl show ?thesis
        by (auto dest: legendre_body_error)
    next
      case (Inr st1)
      with True have "legendre_loop mu x n stop st = legendre_loop mu x (n + 1) stop st1"
        by (subst legendre_loop.simps) simp
      moreover have "result st1 \<noteq> None"
        using Inr by (rule legendre_body_result)
      ultimately show ?thesis
        using "1.IH" [OF True Inr] by simp
    qed
  next
    case False
    then have "legendre_loop mu x n stop st = Inr st"
      by (subst legendre_loop.simps) simp
    with False show ?thesis by auto
  qed
qed

lemma legendre_initial_cache:
  "snd (legendre_initial cache mu x)
     = (if mu = 0 then cache else fst (snd (Memoize_call (=) cache (2 * mu - 1) ())))"
  by (simp add: legendre_initial_def split_beta Let_def)

lemma legendre_initial_inv:
  "Memoize_inv odd_factorial_fn cache \<Longrightarrow>
   Memoize_inv odd_factorial_fn (snd (legendre_initial cache mu x))"
  using Memoize_call_inv [of odd_factorial_fn cache "2 * mu - 1"]
  by (simp add: legendre_initial_cache)

lemma legendre_initial_error:
  "fst (legendre_initial cache mu x) = Inl e \<Longrightarrow> e = OverflowError"
  by (auto simp: legendre_initial_def split_beta Let_def bind_e_def int_to_float_def
      split: if_splits)

lemma legendre_initial_seed:
  assumes "Memoize_inv odd_factorial_fn cache" "0 \<le> mu" "mu \<le> 150" "\<bar>x\<bar> \<le> 1"
  shows "fst (legendre_initial cache mu x) = Inr (seed_spec mu x)"
proof (cases "mu = 0")
  case True
  then show ?thesis by (simp add: legendre_initial_def seed_spec_def)
next
  case False
  with assms(2) have mu: "0 < mu" by simp
  let ?s = "if mu AND 1 \<noteq> 0 then - 1 else 1 :: int"
  have "fst (Memoize_call (=) cache (2 * mu - 1) ()) = odd_factorial_fn (2 * mu - 1)"
    using Memoize_call_inv [OF assms(1)] by simp
  also have "\<dots> = oddFactorialProduct (2 * mu - 1)"
    using mu by (simp add: odd_factorial_fn_stride stride_prod_odd oddFactorialProduct_def)
  finally have fac: "fst (Memoize_call (=) cache (2 * mu - 1) ()) = oddFactorialProduct (2 * mu - 1)" .
  have "1 \<le> oddFactorialProduct (2 * mu - 1) \<and> oddFactorialProduct (2 * mu - 1) < float_limit"
    using odd_factorial_fits [of mu] mu assms(3)
    by (simp add: odd_factorial_fn_stride stride_prod_odd oddFactorialProduct_def)
  then have "\<bar>?s * oddFactorialProduct (2 * mu - 1)\<bar> < float_limit"
    by (simp add: abs_mult)
  then have c: "int_to_float (?s * oddFactorialProduct (2 * mu - 1))
      = Inr (real_of_int (?s * oddFactorialProduct (2 * mu - 1)))"
    by (rule int_to_float_fits)
  have m: "int_to_float mu = Inr (real_of_int mu)"
    using mu assms(3) float_limit_large by (intro int_to_float_fits) simp
  have "x ^ 2 \<le> 1" using assms(4) by (simp add: abs_le_square_iff [of x 1, simplified] power2_eq_square)
  then have pw: "sqrt (1 - x ^ 2) ^ nat mu = (1 - x ^ 2) powr (real_of_int mu / 2)"
    using mu by (intro sqrt_power_powr) simp_all
  have "fst (legendre_initial cache mu x)
      = Inr (real_of_int (?s * oddFactorialProduct (2 * mu - 1)) * sqrt (1 - x ^ 2) ^ nat mu)"
    using False by (simp add: legendre_initial_def split_beta Let_def fac m c)
  then show ?thesis
    using mu by (simp add: pw seed_spec_def sign_spec_def odd_bit_test)
qed

lemma legendre_initial_overflow:
  assumes "Memoize_inv odd_factorial_fn cache" "151 \<le> mu"
  shows "fst (legendre_initial cache mu x) = Inl OverflowError"
proof -
  let ?s = "if mu AND 1 \<noteq> 0 then - 1 else 1 :: int"
  have fac: "fst (Memoize_call (=) cache (2 * mu - 1) ()) = odd_factorial_fn (2 * mu - 1)"
    using Memoize_call_inv [OF assms(1)] by simp
  have "float_limit \<le> odd_factorial_fn (2 * mu - 1)"
    using assms(2) by (rule odd_factorial_too_large)
  moreover have "0 < float_limit"
    using float_limit_large by simp
  ultimately have "\<not> \<bar>?s * odd_factorial_fn (2 * mu - 1)\<bar> < float_limit"
    by (simp add: abs_mult)
  then have "int_to_float (?s * odd_factorial_fn (2 * mu - 1)) = Inl OverflowError"
    by (simp add: int_to_float_def)
  then show ?thesis
    using assms(2)
    by (cases "int_to_float mu")
      (auto simp: legendre_initial_def split_beta Let_def fac dest: int_to_float_error)
qed

lemma legendre_value:
  assumes "Memoize_inv odd_factorial_fn cache" "0 \<le> mu" "mu \<le> nu" "\<bar>x\<bar> \<le> 1"
    and "mu \<le> 150" and "nu < sys_maxint"
  shows "fst (legendre cache nu mu x) = Inr (term_spec mu x nu)"
proof -
  define p0 where "p0 = seed_spec mu x"
  define p1 where "p1 = x * real_of_int (2 * mu + 1) * p0"
  have init: "fst (legendre_initial cache mu x) = Inr p0"
    unfolding p0_def using assms(1,2,5,4) by (rule legendre_initial_seed)
  have t0: "term_spec mu x mu = p0"
    by (subst term_spec.simps) (simp add: p0_def)
  have t1: "term_spec mu x (mu + 1) = p1"
    by (subst term_spec.simps) (simp add: p0_def p1_def)
  have conv: "int_to_float (2 * mu + 1) = Inr (real_of_int (2 * mu + 1))"
    using assms(2,5) float_limit_large by (intro int_to_float_fits) simp
  consider "nu = mu" | "nu = mu + 1" | "mu + 2 \<le> nu"
    using assms(3) by linarith
  then show ?thesis
  proof cases
    case 1
    then show ?thesis
      using assms(2,4) t0 init by (simp add: legendre_def split_beta)
  next
    case 2
    then show ?thesis
      using assms(2,4) t1 init conv by (simp add: legendre_def split_beta p1_def)
  next
    case 3
    have lim: "2 * (nu + 1 - 1) < float_limit"
      using assms(6) sys_maxint_fits by simp
    have range: "xrange (mu + 2) (nu + 1) = Inr (mu + 2, nu + 1)"
      using 3 assms(2,6) by (intro xrange_fits) (simp_all add: sys_maxint_def)
    have "\<exists>st'. legendre_loop mu x (mu + 2) (nu + 1) \<lparr>p_nu_prev = p0, p_nu = p1, result = None\<rparr>
            = Inr st' \<and> result st' = Some (term_spec mu x (nu + 1 - 1))"
      using 3 t1 assms(2) lim by (intro legendre_loop_term) (simp_all add: t0 add.commute)
    then show ?thesis
      using 3 assms(2,4) init conv range
      by (auto simp: legendre_def split_beta Let_def p1_def)
  qed
qed

lemma legendre_overflow:
  assumes "Memoize_inv odd_factorial_fn cache" "151 \<le> mu" "mu \<le> nu" "\<bar>x\<bar> \<le> 1"
  shows "fst (legendre cache nu mu x) = Inl OverflowError"
  using legendre_initial_overflow [OF assms(1,2), of x] assms
  by (simp add: legendre_def split_beta)

lemma legendre_keeps_cache:
  "Memoize_inv odd_factorial_fn cache \<Longrightarrow>
   Memoize_inv odd_factorial_fn (snd (legendre cache nu mu x))"
  using legendre_initial_inv [of cache mu x]
  by (auto simp: legendre_def split_beta Let_def split: option.splits sum.splits)

lemma legendre_outcome:
  assumes "0 \<le> mu" "mu \<le> nu" "\<bar>x\<bar> \<le> 1"
  shows "fst (legendre cache nu mu x) = Inl OverflowError \<or> (\<exists>v. fst (legendre cache nu mu x) = Inr v)"
proof (cases "fst (legendre_initial cache mu x)")
  case (Inl e)
  then have "e = OverflowError" by (rule legendre_initial_error)
  with Inl assms show ?thesis
    by (simp add: legendre_def split_beta)
next
  case p0: (Inr p0)
  show ?thesis
  proof (cases "int_to_float (2 * mu + 1)")
    case (Inl e)
    then have "e = OverflowError" by (rule int_to_float_error)
    with Inl p0 assms show ?thesis
      by (simp add: legendre_def split_beta)
  next
    case a: (Inr a)
    consider "nu = mu" | "nu = mu + 1" | "mu + 2 \<le> nu"
      using assms(2) by linarith
    then show ?thesis
    proof cases
      case 1
      with p0 assms show ?thesis by (simp add: legendre_def split_beta)
    next
      case 2
      with p0 a assms show ?thesis by (simp add: legendre_def split_beta)
    next
      case 3
      let ?st = "\<lparr>p_nu_prev = p0, p_nu = x * a * p0, result = None\<rparr>"
      show ?thesis
      proof (cases "xrange (mu + 2) (nu + 1)")
        case (Inl e)
        then have "e = OverflowError"
          using xrange_outcome [of "mu + 2" "nu + 1" e] by simp
        with Inl p0 a 3 assms show ?thesis
          by (simp add: legendre_def split_beta Let_def)
      next
        case range: (Inr p)
        then have p: "p = (mu + 2, nu + 1)"
          using xrange_outcome [of "mu + 2" "nu + 1" _ p] by simp
        show ?thesis
        proof (cases "legendre_loop mu x (mu + 2) (nu + 1) ?st")
          case (Inl e)
          then have "e = OverflowError"
            using legendre_loop_outcome [of mu x "mu + 2" "nu + 1" ?st e] by simp
          with Inl p0 a 3 assms range show ?thesis
            by (simp add: legendre_def split_beta Let_def p)
        next
          case (Inr st')
          then have "result st' \<noteq> None"
            using legendre_loop_outcome [of mu x "mu + 2" "nu + 1" ?st _ st'] 3 by simp
          with Inr p0 a 3 assms range show ?thesis
            by (auto simp: legendre_def split_beta Let_def p)
        qed
      qed
    qed
  qed
qed

lemma seed_spec_endpoint: "1 \<le> mu \<Longrightarrow> \<bar>x\<bar> = 1 \<Longrightarrow> seed_spec mu x = 0"
  by (simp add: seed_spec_def power2_eq_1_iff abs_if split: if_splits)

lemma term_spec_zero: "seed_spec mu x = 0 \<Longrightarrow> term_spec mu x n = 0"
proof (induction mu x n rule: term_spec.induct)
  case (1 mu x n)
  show ?case
  proof (cases "n \<le> mu + 1")
    case True
    with "1.prems" show ?thesis
      by (subst term_spec.simps) simp
  next
    case False
    then have "term_spec mu x (n - 1) = 0" "term_spec mu x (n - 2) = 0"
      using "1.IH" "1.prems" by simp_all
    with False show ?thesis
      by (subst term_spec.simps) simp
  qed
qed

text \<open>
  Claim C1, as the code has it. For all integers \<open>0 \<le> mu \<le> nu\<close> and every real
  \<open>- 1 \<le> x \<le> 1\<close>, with any cache of \<open>odd_factorial\<close> that earlier calls can have left:
  when \<open>mu \<le> 150\<close> (and \<open>nu + 1\<close> is an integer that \<open>xrange\<close> takes),
  \<open>legendre nu mu x\<close> returns the value of the algorithm of the specification, the
  seed at \<open>nu = mu\<close>, \<open>x * (2 * mu + 1) * seed\<close> at \<open>nu = mu + 1\<close>, and the three-term
  recursion iterated up to \<open>nu\<close> otherwise; from \<open>mu = 151\<close> on, the odd factorial
  product is too large to convert to a float and the call raises \<open>OverflowError\<close>.
\<close>

theorem legendre_refines_spec:
  assumes "Memoize_inv odd_factorial_fn cache" and "0 \<le> mu" and "mu \<le> nu"
    and "- 1 \<le> x" and "x \<le> 1"
  shows "(mu \<le> 150 \<and> nu < sys_maxint \<longrightarrow>
            fst (legendre cache nu mu x) = Inr (legendre_spec nu mu x)) \<and>
         (151 \<le> mu \<longrightarrow> fst (legendre cache nu mu x) = Inl OverflowError)"
proof -
  have x: "\<bar>x\<bar> \<le> 1" using assms(4,5) by simp
  show ?thesis
    unfolding legendre_spec_def
    using legendre_value [OF assms(1-3) x] legendre_overflow [OF assms(1) _ assms(3) x]
    by simp
qed

theorem legendre_refines_spec_witness:
  "Memoize_inv odd_factorial_fn odd_factorial \<and>
   fst (legendre odd_factorial 3 1 0) = Inr (legendre_spec 3 1 0) \<and>
   legendre_spec 3 1 0 = 3 / 2 \<and>
   fst (legendre odd_factorial 200 160 0) = Inl OverflowError"
proof -
  have inv: "Memoize_inv odd_factorial_fn odd_factorial"
    by (simp add: odd_factorial_def Memoize_inv_init)
  have "fst (legendre odd_factorial 3 1 0) = Inr (legendre_spec 3 1 0)"
    using legendre_refines_spec [OF inv, of 1 3 0] by (simp add: sys_maxint_def)
  moreover have "legendre_spec 3 1 0 = 3 / 2"
    by (simp add: legendre_spec_def term_spec.simps seed_spec_def sign_spec_def
        oddFactorialProduct_def)
  moreover have "fst (legendre odd_factorial 200 160 0) = Inl OverflowError"
    using legendre_refines_spec [OF inv, of 160 200 0] by simp
  ultimately show ?thesis using inv by simp
qed

text \<open>
  The claim as stated fails at \<open>legendre(151, 151, 0.5)\<close>: \<open>301!!\<close> exceeds the floats.
\<close>

theorem legendre_overflow_counterexample:
  "fst (legendre odd_factorial 151 151 (1 / 2)) = Inl OverflowError \<and>
   fst (legendre odd_factorial 151 151 (1 / 2)) \<noteq> Inr (legendre_spec 151 151 (1 / 2))"
proof -
  have inv: "Memoize_inv odd_factorial_fn odd_factorial"
    by (simp add: odd_factorial_def Memoize_inv_init)
  have "fst (legendre odd_factorial 151 151 (1 / 2)) = Inl OverflowError"
    using inv by (rule legendre_overflow) simp_all
  then show ?thesis by simp
qed

text \<open>
  Claim C6. \<open>legendre\<close> raises the order error exactly when \<open>mu < 0\<close> or \<open>mu > nu\<close>, and
  raises the argument error exactly when the order constraint holds and \<open>\<bar>x\<bar> > 1\<close>,
  whatever the cache holds; so for all other inputs it raises neither. The only other
  outcomes are a value and \<open>OverflowError\<close>.
\<close>

theorem legendre_errors:
  "(fst (legendre cache nu mu x) = Inl InvalidOrder \<longleftrightarrow> mu < 0 \<or> mu > nu) \<and>
   (fst (legendre cache nu mu x) = Inl InvalidArgument \<longleftrightarrow> 0 \<le> mu \<and> mu \<le> nu \<and> \<bar>x\<bar> > 1) \<and>
   (fst (legendre cache nu mu x) = Inl InvalidOrder \<or>
    fst (legendre cache nu mu x) = Inl InvalidArgument \<or>
    fst (legendre cache nu mu x) = Inl OverflowError \<or>
    (\<exists>v. fst (legendre cache nu mu x) = Inr v))"
proof -
  consider (order) "mu < 0 \<or> mu > nu" | (arg) "0 \<le> mu" "mu \<le> nu" "\<bar>x\<bar> > 1"
    | (ok) "0 \<le> mu" "mu \<le> nu" "\<bar>x\<bar> \<le> 1"
    by linarith
  then show ?thesis
  proof cases
    case order
    then have "fst (legendre cache nu mu x) = Inl InvalidOrder"
      by (simp add: legendre_def)
    with order show ?thesis by auto
  next
    case arg
    then have "fst (legendre cache nu mu x) = Inl InvalidArgument"
      by (simp add: legendre_def)
    with arg show ?thesis by auto
  next
    case ok
    then have "fst (legendre cache nu mu x) = Inl OverflowError \<or>
        (\<exists>v. fst (legendre cache nu mu x) = Inr v)"
      by (rule legendre_outcome)
    with ok show ?thesis by auto
  qed
qed

text \<open>
  Claim C10, as the code has it. For all integers \<open>1 \<le> mu \<le> nu\<close> with \<open>mu \<le> 150\<close> (and
  \<open>nu + 1\<close> an integer that \<open>xrange\<close> takes), \<open>legendre nu mu 1\<close> and
  \<open>legendre nu mu (- 1)\<close> both return zero; from \<open>mu = 151\<close> on both raise
  \<open>OverflowError\<close>, the integer product being converted before it meets the zero.
\<close>

theorem legendre_endpoints_zero:
  assumes "Memoize_inv odd_factorial_fn cache" and "1 \<le> mu" and "mu \<le> nu"
  shows "(mu \<le> 150 \<and> nu < sys_maxint \<longrightarrow>
            fst (legendre cache nu mu 1) = Inr 0 \<and> fst (legendre cache nu mu (- 1)) = Inr 0) \<and>
         (151 \<le> mu \<longrightarrow>
            fst (legendre cache nu mu 1) = Inl OverflowError \<and>
            fst (legendre cache nu mu (- 1)) = Inl OverflowError)"
proof -
  have mu: "0 \<le> mu" using assms(2) by simp
  have zero: "term_spec mu x nu = 0" if "\<bar>x\<bar> = 1" for x
    using assms(2) that by (intro term_spec_zero seed_spec_endpoint)
  show ?thesis
    using legendre_value [OF assms(1) mu assms(3), of 1]
      legendre_value [OF assms(1) mu assms(3), of "- 1"]
      legendre_overflow [OF assms(1) _ assms(3), of 1]
      legendre_overflow [OF assms(1) _ assms(3), of "- 1"]
      zero [of 1] zero [of "- 1"]
    by simp
qed

theorem legendre_endpoints_zero_witness:
  "fst (legendre odd_factorial 3 2 1) = Inr 0 \<and> fst (legendre odd_factorial 3 2 (- 1)) = Inr 0 \<and>
   fst (legendre odd_factorial 160 160 1) = Inl OverflowError"
proof -
  have inv: "Memoize_inv odd_factorial_fn odd_factorial"
    by (simp add: odd_factorial_def Memoize_inv_init)
  show ?thesis
    using legendre_endpoints_zero [OF inv, of 2 3] legendre_endpoints_zero [OF inv, of 160 160]
    by (simp add: sys_maxint_def)
qed

text \<open>
  The claim as stated fails at \<open>legendre(151, 151, 1.0)\<close>.
\<close>

theorem legendre_endpoint_overflow_counterexample:
  "fst (legendre odd_factorial 151 151 1) = Inl OverflowError \<and>
   fst (legendre odd_factorial 151 151 1) \<noteq> Inr 0"
proof -
  have inv: "Memoize_inv odd_factorial_fn odd_factorial"
    by (simp add: odd_factorial_def Memoize_inv_init)
  have "fst (legendre odd_factorial 151 151 1) = Inl OverflowError"
    using inv by (rule legendre_overflow) simp_all
  then show ?thesis by simp
qed

section \<open>Properties of arrays: offsets and broadcasting\<close>

lemma unravel_valid: "k < prod_list s \<Longrightarrow> list_all2 (<) (unravel s k) s"
proof (induction s arbitrary: k)
  case Nil
  then show ?case by simp
next
  case (Cons d s)
  then have pos: "0 < prod_list s"
    by (cases "prod_list s = 0") simp_all
  from Cons.prems have "k div prod_list s < d"
    by (simp add: less_mult_imp_div_less mult.commute)
  moreover have "k mod prod_list s < prod_list s"
    using pos by simp
  ultimately show ?case
    using Cons.IH by simp
qed

lemma ravel_unravel: "k < prod_list s \<Longrightarrow> ravel s (unravel s k) = k"
proof (induction s arbitrary: k)
  case Nil
  then show ?case by simp
next
  case (Cons d s)
  then have pos: "0 < prod_list s"
    by (cases "prod_list s = 0") simp_all
  then have "ravel s (unravel s (k mod prod_list s)) = k mod prod_list s"
    by (intro Cons.IH) simp
  then show ?case by simp
qed



lemma bcast_index_same: "list_all2 (<) idx s \<Longrightarrow> bcast_index s idx = idx"
proof -
  assume a: "list_all2 (<) idx s"
  then have len: "length idx = length s"
    by (rule list_all2_lengthD)
  have "map2 (\<lambda>d i. if d = 1 then 0 else i) s idx = idx"
    using a by (induction idx s rule: list_all2_induct) auto
  with len show ?thesis
    by (simp add: bcast_index_def)
qed

lemma expand_self: "wf_nd a \<Longrightarrow> expand a (shape a) = a"
proof -
  assume wf: "wf_nd a"
  have "map (\<lambda>k. data a ! ravel (shape a) (bcast_index (shape a) (unravel (shape a) k)))
          [0..<prod_list (shape a)] = map ((!) (data a)) [0..<prod_list (shape a)]"
    by (intro map_cong refl) (simp add: bcast_index_same unravel_valid ravel_unravel)
  also have "\<dots> = data a"
    using wf map_nth [of "data a"] by (simp add: wf_nd_def size_nd_def)
  finally show ?thesis
    by (cases a) (simp add: expand_def)
qed

lemma broadcast_aligned_same: "broadcast_aligned s s = Inr s"
  by (induction s) (simp_all add: broadcast_dim_def)

lemma broadcast_shapes_same: "broadcast_shapes s s = Inr s"
  by (simp add: broadcast_shapes_def broadcast_aligned_same)

lemma nd_binop_same_shape:
  "wf_nd a \<Longrightarrow> wf_nd b \<Longrightarrow> shape a = shape b \<Longrightarrow>
   nd_binop h a b = Inr (NDArray (shape a) (map2 h (data a) (data b)))"
  using expand_self [of a] expand_self [of b]
  by (simp add: nd_binop_def broadcast_shapes_same)

lemma prod_list_replicate_one [simp]: "prod_list (replicate n (1::nat)) = 1"
  by (induction n) simp_all

lemma prod_list_int_replicate_one [simp]: "prod_list (replicate n (1::int)) = 1"
  by (induction n) simp_all

lemma prod_list_axis: "q < n \<Longrightarrow> prod_list (axis_unit n q m) = m"
  by (simp add: axis_unit_def upd_conv_take_nth_drop)

lemma length_axis_unit [simp]: "length (axis_unit n q m) = n"
  by (simp add: axis_unit_def)

lemma nth_axis_unit: "k < n \<Longrightarrow> axis_unit n q m ! k = (if k = q then m else 1)"
  by (simp add: axis_unit_def nth_list_update)

lemma size_axis_array: "q < n \<Longrightarrow> size_nd (axis_array n q a) = size_nd a"
  by (simp only: axis_array_def size_nd_def ndarray.sel prod_list_axis)

lemma axis_shape_eq:
  "i < n \<Longrightarrow> axis_shape n i = replicate i 1 @ [- 1] @ replicate (n - Suc i) 1"
  by (simp add: axis_shape_def Let_def min_def)

lemma reshape_axis:
  assumes "i < n"
  shows "reshape a (axis_shape n i) = Inr (axis_array n i a)"
proof -
  let ?sh = "replicate i 1 @ [- 1] @ replicate (n - Suc i) (1::int)"
  have known: "prod_list (filter (\<lambda>d. d \<noteq> - 1) ?sh) = 1"
    by simp
  have unknowns: "length (filter (\<lambda>d. d = - 1) ?sh) = 1"
    by simp
  have neg: "\<not> list_ex (\<lambda>d. d < - 1) ?sh"
    by (auto simp: list_ex_iff)
  have "axis_unit n i (size_nd a)
      = replicate i 1 @ [size_nd a] @ replicate (n - Suc i) 1"
    using assms by (simp add: axis_unit_def upd_conv_take_nth_drop min_def)
  also have "\<dots> = map (\<lambda>d. if d = - 1 then nat (int (size_nd a) div 1) else nat d) ?sh"
    by simp
  finally have sh: "map (\<lambda>d. if d = - 1 then nat (int (size_nd a) div 1) else nat d) ?sh
      = axis_unit n i (size_nd a)" ..
  show ?thesis
    unfolding reshape_def axis_shape_eq [OF assms] Let_def known unknowns sh axis_array_def
    using neg by simp
qed

lemma broadcast_aligned_into:
  "list_all2 (\<lambda>a b. a = 1 \<or> a = b) s t \<Longrightarrow> broadcast_aligned s t = Inr t"
  by (induction s t rule: list_all2_induct) (auto simp: broadcast_dim_def)

lemma broadcast_shapes_into:
  assumes "list_all2 (\<lambda>a b. a = 1 \<or> a = b) s t"
  shows "broadcast_shapes s t = Inr t"
proof -
  have "length s = length t"
    using assms by (rule list_all2_lengthD)
  then show ?thesis
    using assms by (simp add: broadcast_shapes_def broadcast_aligned_into)
qed

lemma broadcast_aligned_ones: "broadcast_aligned s (replicate (length s) 1) = Inr s"
  by (induction s) (simp_all add: broadcast_dim_def)

lemma broadcast_aligned_merge:
  "list_all2 (\<lambda>a b. a = b \<or> a = 1 \<or> b = 1) s r \<Longrightarrow>
   broadcast_aligned s r = Inr (map2 (\<lambda>a b. if a = 1 then b else a) s r)"
  by (induction s r rule: list_all2_induct) (auto simp: broadcast_dim_def)

lemma broadcast_shape_list_cover:
  assumes "ss \<noteq> []" and "\<forall>s\<in>set ss. list_all2 (\<lambda>a b. a = 1 \<or> a = b) s T"
  shows "broadcast_shape_list ss
           = Inr (map (\<lambda>k. if \<exists>s\<in>set ss. s ! k \<noteq> 1 then T ! k else 1) [0..<length T])"
  using assms
proof (induction ss rule: list_nonempty_induct)
  case (single s)
  then have c: "list_all2 (\<lambda>a b. a = 1 \<or> a = b) s T"
    by simp
  then have len: "length s = length T"
    by (rule list_all2_lengthD)
  have "broadcast_shape_list [s] = broadcast_aligned s (replicate (length s) 1)"
    by (simp add: broadcast_shapes_def)
  also have "\<dots> = Inr s"
    by (rule broadcast_aligned_ones)
  finally have one: "broadcast_shape_list [s] = Inr s" .
  have "map (\<lambda>k. if \<exists>s'\<in>set [s]. s' ! k \<noteq> 1 then T ! k else 1) [0..<length T] = s"
    using c len by (intro nth_equalityI) (auto simp: list_all2_conv_all_nth)
  with one show ?case by (simp only:)
next
  case (cons s ss)
  let ?r = "map (\<lambda>k. if \<exists>s\<in>set ss. s ! k \<noteq> 1 then T ! k else 1) [0..<length T]"
  have c: "list_all2 (\<lambda>a b. a = 1 \<or> a = b) s T"
    using cons.prems by simp
  then have len: "length s = length T"
    by (rule list_all2_lengthD)
  have pt: "s ! k = 1 \<or> s ! k = T ! k" if "k < length T" for k
    using c that by (simp add: list_all2_conv_all_nth)
  have rest: "broadcast_shape_list ss = Inr ?r"
    using cons.prems by (intro cons.IH) simp
  have "list_all2 (\<lambda>a b. a = b \<or> a = 1 \<or> b = 1) s ?r"
    using len pt by (auto simp: list_all2_conv_all_nth)
  then have "broadcast_aligned s ?r = Inr (map2 (\<lambda>a b. if a = 1 then b else a) s ?r)"
    by (rule broadcast_aligned_merge)
  moreover have "broadcast_shapes s ?r = broadcast_aligned s ?r"
    using len by (simp add: broadcast_shapes_def)
  moreover have "map2 (\<lambda>a b. if a = 1 then b else a) s ?r
      = map (\<lambda>k. if \<exists>s'\<in>set (s # ss). s' ! k \<noteq> 1 then T ! k else 1) [0..<length T]"
    using len pt by (intro nth_equalityI) auto
  ultimately show ?case
    using rest by simp
qed

lemma axis_compat:
  "q < n \<Longrightarrow> length T = n \<Longrightarrow> T ! q = m \<Longrightarrow>
   list_all2 (\<lambda>a b. a = 1 \<or> a = b) (axis_unit n q m) T"
  by (auto simp: list_all2_conv_all_nth nth_axis_unit)





lemma map_nd_ident [simp]: "map_nd (\<lambda>v. v) a = a"
  by (cases a) (simp add: map_nd_def)

lemma nd_binop_ones:
  assumes "q < n" and "length T = n" and "T ! q = size_nd a"
  shows "nd_binop mul (axis_array n q a) (ones T)
           = Inr (map_nd (\<lambda>v. mul v 1) (expand (axis_array n q a) T))"
proof -
  have "broadcast_shapes (axis_unit n q (size_nd a)) T = Inr T"
    by (intro broadcast_shapes_into axis_compat assms)
  then have "broadcast_shapes (shape (axis_array n q a)) (shape (ones T)) = Inr T"
    by (simp add: axis_array_def ones_def)
  moreover have "expand (ones T) T = ones T"
    using expand_self [of "ones T"] by (simp add: ones_def wf_nd_def size_nd_def)
  moreover have "map2 mul (data (expand (axis_array n q a) T)) (replicate (prod_list T) 1)
      = map (\<lambda>v. mul v 1) (data (expand (axis_array n q a) T))"
    by (intro nth_equalityI) (simp_all add: expand_def)
  ultimately show ?thesis
    by (simp add: nd_binop_def ones_def map_nd_def) (simp add: expand_def)
qed




section \<open>Properties of the coordinate transform\<close>

lemma getitem2_44:
  "shape M = [4, 4] \<Longrightarrow> i < 4 \<Longrightarrow> j < 4 \<Longrightarrow> getitem2 M i j = Inr (data M ! (i * 4 + j))"
  by (simp add: getitem2_def)

lemma transform_row_value:
  assumes wf: "wf_nd (coord_x A)" "wf_nd (coord_y A)" "wf_nd (coord_z A)"
    and same: "shape (coord_y A) = shape (coord_x A)" "shape (coord_z A) = shape (coord_x A)"
    and M: "shape M = [4, 4]" and i: "i < 3"
  shows "transform_row A M i =
     Inr (NDArray (shape (coord_x A))
            (map (\<lambda>p. data (coord_x A) ! p * data M ! (i * 4 + 0)
                     + data (coord_y A) ! p * data M ! (i * 4 + 1)
                     + data (coord_z A) ! p * data M ! (i * 4 + 2)
                     + data M ! (i * 4 + 3))
               [0..<size_nd (coord_x A)]))"
proof -
  let ?n = "size_nd (coord_x A)"
  let ?X = "data (coord_x A)" and ?Y = "data (coord_y A)" and ?Z = "data (coord_z A)"
  have len: "length ?X = ?n" "length ?Y = ?n" "length ?Z = ?n"
    using wf same by (simp_all add: wf_nd_def size_nd_def)
  have g: "getitem2 M i j = Inr (data M ! (i * 4 + j))" if "j < 4" for j
    using M i that by (intro getitem2_44) simp_all
  define m0 m1 m2 m3 where "m0 = data M ! (i * 4 + 0)" and "m1 = data M ! (i * 4 + 1)"
    and "m2 = data M ! (i * 4 + 2)" and "m3 = data M ! (i * 4 + 3)"
  have g0: "getitem2 M i 0 = Inr m0" and g1: "getitem2 M i 1 = Inr m1"
    and g2: "getitem2 M i 2 = Inr m2" and g3: "getitem2 M i 3 = Inr m3"
    using g [of 0] g [of 1] g [of 2] g [of 3] by (simp_all add: m0_def m1_def m2_def m3_def)
  define t where "t = NDArray (shape (coord_x A)) (map2 (+) (map (\<lambda>v. v * m0) ?X) (map (\<lambda>v. v * m1) ?Y))"
  have s1: "nd_add (scalar_mul (coord_x A) m0) (scalar_mul (coord_y A) m1) = Inr t"
    unfolding nd_add_def t_def using len same
    by (subst nd_binop_same_shape) (simp_all add: scalar_mul_def wf_nd_def size_nd_def)
  define u where "u = NDArray (shape (coord_x A)) (map2 (+) (data t) (map (\<lambda>v. v * m2) ?Z))"
  have s2: "nd_add t (scalar_mul (coord_z A) m2) = Inr u"
    unfolding nd_add_def u_def using len same
    by (subst nd_binop_same_shape) (simp_all add: scalar_mul_def wf_nd_def size_nd_def t_def)
  have "transform_row A M i = Inr (scalar_add u m3)"
    unfolding transform_row_def g0 g1 g2 g3 bind_e_Inr s1 s2 ..
  moreover have "data (scalar_add u m3) =
      map (\<lambda>p. ?X ! p * m0 + ?Y ! p * m1 + ?Z ! p * m2 + m3) [0..<?n]"
    using len by (intro nth_equalityI) (simp_all add: scalar_add_def u_def t_def)
  moreover have "shape (scalar_add u m3) = shape (coord_x A)"
    by (simp add: scalar_add_def u_def)
  ultimately show ?thesis
    unfolding m0_def m1_def m2_def m3_def
    by (cases "scalar_add u (data M ! (i * 4 + 3))") simp
qed

lemma entry_44: "shape M = [4, 4] \<Longrightarrow> entry M i j = data M ! (i * 4 + j)"
  by (simp add: entry_def)

lemma transform_row_entries:
  assumes "wf_nd (coord_x A)" "wf_nd (coord_y A)" "wf_nd (coord_z A)"
    and "shape (coord_y A) = shape (coord_x A)" "shape (coord_z A) = shape (coord_x A)"
    and "shape M = [4, 4]" and "i < 3"
  shows "transform_row A M i =
     Inr (NDArray (shape (coord_x A))
            (map (\<lambda>p. data (coord_x A) ! p * entry M i 0 + data (coord_y A) ! p * entry M i 1
                     + data (coord_z A) ! p * entry M i 2 + entry M i 3)
               [0..<size_nd (coord_x A)]))"
  using transform_row_value [OF assms] by (simp only: entry_44 [OF assms(6)])

text \<open>
  Claim C5. For every coordinate triple \<open>A\<close> of well-formed arrays of one shape (of any
  dimension, dimension 0 included) and every 4x4 matrix \<open>M\<close>, \<open>transform_coordinates\<close>
  returns a triple \<open>B\<close> of arrays of that shape in which, for every axis \<open>i\<close> in
  \<open>{0, 1, 2}\<close> and at every position \<open>p\<close>,
  \<open>B_i = A.x * M[i,0] + A.y * M[i,1] + A.z * M[i,2] + M[i,3]\<close>.
\<close>

theorem transform_coordinates_affine:
  assumes "wf_nd (coord_x A)" and "wf_nd (coord_y A)" and "wf_nd (coord_z A)"
    and "shape (coord_y A) = shape (coord_x A)" and "shape (coord_z A) = shape (coord_x A)"
    and "shape M = [4, 4]" and "wf_nd M"
  shows "\<exists>B. transform_coordinates A M = Inr B \<and>
           (\<forall>i<3. shape (component B i) = shape (coord_x A) \<and> wf_nd (component B i) \<and>
              (\<forall>p<size_nd (coord_x A).
                 data (component B i) ! p
                   = data (coord_x A) ! p * entry M i 0 + data (coord_y A) ! p * entry M i 1
                       + data (coord_z A) ! p * entry M i 2 + entry M i 3))"
proof -
  define row where "row i = NDArray (shape (coord_x A))
            (map (\<lambda>p. data (coord_x A) ! p * entry M i 0 + data (coord_y A) ! p * entry M i 1
                     + data (coord_z A) ! p * entry M i 2 + entry M i 3)
               [0..<size_nd (coord_x A)])" for i
  have r: "transform_row A M i = Inr (row i)" if "i < 3" for i
    unfolding row_def using assms(1-6) that by (rule transform_row_entries)
  have "transform_coordinates A M = Inr (CoordsVector (row 0) (row 1) (row 2))"
    by (simp add: transform_coordinates_def r)
  moreover have "component (CoordsVector (row 0) (row 1) (row 2)) i = row i" if "i < 3" for i
  proof -
    from that have "i = 0 \<or> i = 1 \<or> i = 2" by auto
    then show ?thesis by (auto simp: component_def)
  qed
  moreover have "shape (row i) = shape (coord_x A)" "wf_nd (row i)" for i
    by (simp_all add: row_def wf_nd_def size_nd_def)
  moreover have "data (row i) ! p
      = data (coord_x A) ! p * entry M i 0 + data (coord_y A) ! p * entry M i 1
          + data (coord_z A) ! p * entry M i 2 + entry M i 3" if "p < size_nd (coord_x A)" for i p
    using that by (simp add: row_def)
  ultimately show ?thesis by simp
qed

theorem transform_coordinates_affine_witness:
  "\<exists>B. transform_coordinates example_coords example_affine = Inr B \<and>
       data (component B 0) ! 0 = 1 * 1 + 3 * 0 + 5 * 0 + 5 \<and>
       data (component B 1) ! 1 = 2 * 0 + 4 * 2 + 6 * 0 + 6 \<and>
       data (component B 2) ! 1 = 2 * 0 + 4 * 0 + 6 * 3 + 7"
proof -
  have "wf_nd (coord_x example_coords)" "wf_nd (coord_y example_coords)"
    "wf_nd (coord_z example_coords)" "shape (coord_y example_coords) = shape (coord_x example_coords)"
    "shape (coord_z example_coords) = shape (coord_x example_coords)"
    "shape example_affine = [4, 4]" "wf_nd example_affine"
    by (simp_all add: example_coords_def example_affine_def wf_nd_def size_nd_def)
  from transform_coordinates_affine [OF this]
  obtain B where B: "transform_coordinates example_coords example_affine = Inr B"
    and el: "\<And>i p. i < 3 \<Longrightarrow> p < size_nd (coord_x example_coords) \<Longrightarrow>
      data (component B i) ! p
        = data (coord_x example_coords) ! p * entry example_affine i 0
          + data (coord_y example_coords) ! p * entry example_affine i 1
          + data (coord_z example_coords) ! p * entry example_affine i 2
          + entry example_affine i 3"
    by blast
  have "data (component B 0) ! 0 = 1 * 1 + 3 * 0 + 5 * 0 + 5"
    using el [of 0 0] by (simp add: example_coords_def example_affine_def size_nd_def entry_def)
  moreover have "data (component B 1) ! 1 = 2 * 0 + 4 * 2 + 6 * 0 + 6"
    using el [of 1 1] by (simp add: example_coords_def example_affine_def size_nd_def entry_def)
  moreover have "data (component B 2) ! 1 = 2 * 0 + 4 * 0 + 6 * 3 + 7"
    using el [of 2 1] by (simp add: example_coords_def example_affine_def size_nd_def entry_def)
  ultimately show ?thesis using B by blast
qed

lemma transform_row_rows:
  assumes "shape M = [4, 4]" and "shape M' = [4, 4]"
    and "\<forall>i<3. \<forall>j<4. entry M i j = entry M' i j" and "i < 3"
  shows "transform_row A M i = transform_row A M' i"
proof -
  have "getitem2 M i j = getitem2 M' i j" if "j < 4" for j
    using assms that by (simp add: getitem2_def entry_def)
  then have "getitem2 M i 0 = getitem2 M' i 0" "getitem2 M i 1 = getitem2 M' i 1"
    "getitem2 M i 2 = getitem2 M' i 2" "getitem2 M i 3 = getitem2 M' i 3"
    by simp_all
  then show ?thesis
    by (simp only: transform_row_def)
qed

text \<open>
  Claim C9. The last row of the matrix is never read: for every coordinate triple \<open>A\<close>
  and any two 4x4 matrices that agree on rows 0 to 2, whatever their rows 3 are,
  \<open>transform_coordinates\<close> gives the same result (the same triple, or the same error).
\<close>

theorem transform_coordinates_last_row:
  assumes "shape M = [4, 4]" and "shape M' = [4, 4]"
    and "\<forall>i<3. \<forall>j<4. entry M i j = entry M' i j"
  shows "transform_coordinates A M = transform_coordinates A M'"
  using transform_row_rows [OF assms, of 0] transform_row_rows [OF assms, of 1]
    transform_row_rows [OF assms, of 2]
  by (simp add: transform_coordinates_def)

theorem transform_coordinates_last_row_witness:
  "example_affine \<noteq> example_affine' \<and>
   transform_coordinates example_coords example_affine
     = transform_coordinates example_coords example_affine'"
proof -
  have rows: "\<forall>i<3. \<forall>j<4. entry example_affine i j = entry example_affine' i j"
  proof (intro allI impI)
    fix i j :: nat assume "i < 3" and "j < 4"
    then have "i = 0 \<or> i = 1 \<or> i = 2" and "j = 0 \<or> j = 1 \<or> j = 2 \<or> j = 3"
      by auto
    then show "entry example_affine i j = entry example_affine' i j"
      by (auto simp: entry_def example_affine_def example_affine'_def)
  qed
  have "transform_coordinates example_coords example_affine
     = transform_coordinates example_coords example_affine'"
    by (rule transform_coordinates_last_row [OF _ _ rows])
      (simp_all add: example_affine_def example_affine'_def)
  then show ?thesis
    by (simp add: example_affine_def example_affine'_def)
qed

section \<open>Properties of the grid generator\<close>

lemma sequence_e_Inr: "sequence_e (map (\<lambda>v. Inr (h v)) vs) = Inr (map h vs)"
  by (induction vs) simp_all

lemma copy_nd_id [simp]: "copy_nd a = a"
  by (cases a) (simp add: copy_nd_def)

lemma atleast_1d_one_data [simp]: "data (atleast_1d_one a) = data a"
  by (simp add: atleast_1d_one_def)

lemma atleast_1d_one_size [simp]: "size_nd (atleast_1d_one a) = size_nd a"
  by (simp add: atleast_1d_one_def size_nd_def)

lemma atleast_1d_many: "length xi \<noteq> 1 \<Longrightarrow> atleast_1d xi = Many (map atleast_1d_one xi)"
  by (cases xi; cases "tl xi") (auto simp: atleast_1d_def Let_def split: list.splits)

lemma atleast_1d_single: "atleast_1d [a] = One (atleast_1d_one a)"
  by (simp add: atleast_1d_def)

lemma axis_array_atleast [simp]: "axis_array n q (atleast_1d_one a) = axis_array n q a"
  by (simp add: axis_array_def)

lemma reshape_all:
  "sequence_e (map (\<lambda>(i, x). reshape x (axis_shape (length xi) i))
                 (enumerate 0 (map atleast_1d_one xi))) = Inr (grid_outputs False xi)"
proof -
  let ?n = "length xi"
  let ?en = "enumerate 0 (map atleast_1d_one xi)"
  have "map (\<lambda>(i, x). reshape x (axis_shape ?n i)) ?en
      = map (\<lambda>p. Inr (axis_array ?n (fst p) (snd p))) ?en"
    by (intro map_cong refl) (auto simp: in_set_enumerate_eq reshape_axis)
  then have "sequence_e (map (\<lambda>(i, x). reshape x (axis_shape ?n i)) ?en)
      = Inr (map (\<lambda>p. axis_array ?n (fst p) (snd p)) ?en)"
    by (simp only: sequence_e_Inr)
  also have "map (\<lambda>p. axis_array ?n (fst p) (snd p)) ?en = grid_outputs False xi"
    by (intro nth_equalityI) (simp_all add: grid_outputs_def nth_enumerate_eq axis_of_def)
  finally show ?thesis .
qed

lemma sizes_grid_outputs_ij: "map size_nd (grid_outputs False xi) = map size_nd xi"
  by (intro nth_equalityI) (simp_all add: grid_outputs_def axis_of_def size_axis_array)

lemma swap01_update: "2 \<le> length s \<Longrightarrow> s[0 := s ! 1, 1 := s ! 0] = swap01 s"
  by (cases s; cases "tl s") (auto simp: swap01_def)

lemma reshape_only_size_data:
  "size_nd a = size_nd b \<Longrightarrow> data a = data b \<Longrightarrow> reshape a ns = reshape b ns"
  by (simp add: reshape_def Let_def)

lemma switch_xy_grid:
  assumes "2 \<le> length xi"
  shows "switch_xy (grid_outputs False xi) (map size_nd xi)
           = Inr (grid_outputs True xi, swap01 (map size_nd xi))"
proof -
  let ?n = "length xi"
  let ?out = "grid_outputs False xi"
  have len: "length ?out = ?n"
    by (simp add: grid_outputs_def)
  have pos: "0 < ?n" "1 < ?n" "Suc 0 < ?n"
    using assms by linarith+
  have o0: "?out ! 0 = axis_array ?n 0 (xi ! 0)" and o1: "?out ! 1 = axis_array ?n 1 (xi ! 1)"
    using pos by (simp_all add: grid_outputs_def axis_of_def)
  have s1: "[1, - 1] @ replicate (?n - 2) 1 = axis_shape ?n 1"
    using assms by (simp add: axis_shape_eq Suc_diff_Suc numeral_2_eq_2)
  have s0: "[- 1, 1] @ replicate (?n - 2) 1 = axis_shape ?n 0"
  proof -
    have "replicate (?n - Suc 0) (1::int) = 1 # replicate (?n - 2) 1"
      using assms by (cases ?n; cases "?n - 1") (simp_all add: numeral_2_eq_2)
    then show ?thesis using pos by (auto simp: axis_shape_eq)
  qed
  have r0: "reshape (?out ! 0) ([1, - 1] @ replicate (?n - 2) 1) = Inr (axis_array ?n 1 (xi ! 0))"
  proof -
    have "size_nd (?out ! 0) = size_nd (xi ! 0)"
      by (simp only: o0 size_axis_array [OF pos(1)])
    moreover have "data (?out ! 0) = data (xi ! 0)"
      by (simp only: o0 axis_array_def ndarray.sel)
    ultimately have "reshape (?out ! 0) (axis_shape ?n 1) = reshape (xi ! 0) (axis_shape ?n 1)"
      by (rule reshape_only_size_data)
    then show ?thesis unfolding s1 by (simp only: reshape_axis [OF pos(2)])
  qed
  have r1: "reshape (?out ! 1) ([- 1, 1] @ replicate (?n - 2) 1) = Inr (axis_array ?n 0 (xi ! 1))"
  proof -
    have "size_nd (?out ! 1) = size_nd (xi ! 1)"
      by (simp only: o1 size_axis_array [OF pos(2)])
    moreover have "data (?out ! 1) = data (xi ! 1)"
      by (simp only: o1 axis_array_def ndarray.sel)
    ultimately have "reshape (?out ! 1) (axis_shape ?n 0) = reshape (xi ! 1) (axis_shape ?n 0)"
      by (rule reshape_only_size_data)
    then show ?thesis unfolding s0 by (simp only: reshape_axis [OF pos(1)])
  qed
  have upd: "?out[0 := axis_array ?n 1 (xi ! 0), 1 := axis_array ?n 0 (xi ! 1)] = grid_outputs True xi"
    using assms
    by (intro nth_equalityI) (auto simp: grid_outputs_def axis_of_def nth_list_update)
  have shp: "(map size_nd xi)[0 := map size_nd xi ! 1, 1 := map size_nd xi ! 0]
      = swap01 (map size_nd xi)"
    using assms by (intro swap01_update) simp
  have small: "\<not> ?n \<le> 0" "\<not> ?n \<le> 1"
    using assms by linarith+
  have small': "\<not> length (map size_nd xi) \<le> 1"
    unfolding length_map by (rule small(2))
  show ?thesis
    unfolding switch_xy_def Let_def len r0 r1 bind_e_Inr upd shp
    by (simp only: small small' if_False)
qed

lemma axis_of_less: "i < n \<Longrightarrow> (xy \<longrightarrow> 2 \<le> n) \<Longrightarrow> axis_of xy i < n"
  by (auto simp: axis_of_def)

lemma axis_of_invol [simp]: "axis_of xy (axis_of xy i) = i"
  by (simp add: axis_of_def)

lemma length_swap01 [simp]: "length (swap01 s) = length s"
  by (simp add: swap01_def split: list.splits)

lemma swap01_swap01 [simp]: "swap01 (swap01 s) = s"
  by (simp add: swap01_def split: list.splits)

lemma prod_list_swap01 [simp]: "prod_list (swap01 s) = prod_list (s :: nat list)"
  by (simp add: swap01_def split: list.splits)

lemma swap01_nth: "2 \<le> length s \<Longrightarrow> i < length s \<Longrightarrow> swap01 s ! axis_of True i = s ! i"
proof -
  assume "2 \<le> length s" and i: "i < length s"
  then obtain a b r where s: "s = a # b # r"
    by (cases s; cases "tl s") auto
  show ?thesis
    using i unfolding s by (cases i; cases "i - 1") (simp_all add: swap01_def axis_of_def)
qed

lemma length_grid_shape [simp]: "length (grid_shape xy xi) = length xi"
  by (simp add: grid_shape_def)

lemma length_grid_outputs [simp]: "length (grid_outputs xy xi) = length xi"
  by (simp add: grid_outputs_def)

lemma grid_shape_nth:
  "i < length xi \<Longrightarrow> (xy \<longrightarrow> 2 \<le> length xi) \<Longrightarrow>
   grid_shape xy xi ! axis_of xy i = size_nd (xi ! i)"
  using swap01_nth [of "map size_nd xi" i]
  by (cases xy) (simp_all add: grid_shape_def, simp add: axis_of_def)

lemma grid_outputs_nth:
  "i < length xi \<Longrightarrow> grid_outputs xy xi ! i = axis_array (length xi) (axis_of xy i) (xi ! i)"
  by (simp add: grid_outputs_def)

lemma grid_outputs_cases:
  assumes "a \<in> set (grid_outputs xy xi)" and "xy \<longrightarrow> 2 \<le> length xi"
  obtains i where "i < length xi" and "a = axis_array (length xi) (axis_of xy i) (xi ! i)"
    and "axis_of xy i < length xi" and "grid_shape xy xi ! axis_of xy i = size_nd (xi ! i)"
proof -
  from assms(1) obtain i where i: "i < length xi" "a = grid_outputs xy xi ! i"
    by (auto simp: in_set_conv_nth)
  show thesis
  proof (rule that [of i])
    show "i < length xi" by (rule i(1))
    show "a = axis_array (length xi) (axis_of xy i) (xi ! i)"
      using i by (simp add: grid_outputs_nth)
    show "axis_of xy i < length xi"
      using i(1) assms(2) by (rule axis_of_less)
    show "grid_shape xy xi ! axis_of xy i = size_nd (xi ! i)"
      using i(1) assms(2) by (rule grid_shape_nth)
  qed
qed

lemma grid_times_ones:
  assumes "xy \<longrightarrow> 2 \<le> length xi"
  shows "sequence_e (map (\<lambda>x. nd_binop mul x (ones (grid_shape xy xi))) (grid_outputs xy xi))
           = Inr (map (\<lambda>a. map_nd (\<lambda>v. mul v 1) (expand a (grid_shape xy xi)))
                    (grid_outputs xy xi))"
proof -
  have "map (\<lambda>x. nd_binop mul x (ones (grid_shape xy xi))) (grid_outputs xy xi)
      = map (\<lambda>a. Inr (map_nd (\<lambda>v. mul v 1) (expand a (grid_shape xy xi)))) (grid_outputs xy xi)"
  proof (intro map_cong refl)
    fix a assume "a \<in> set (grid_outputs xy xi)"
    then obtain i where "a = axis_array (length xi) (axis_of xy i) (xi ! i)"
      and "axis_of xy i < length xi" and "grid_shape xy xi ! axis_of xy i = size_nd (xi ! i)"
      using assms by (rule grid_outputs_cases)
    then show "nd_binop mul a (ones (grid_shape xy xi))
        = Inr (map_nd (\<lambda>v. mul v 1) (expand a (grid_shape xy xi)))"
      by (simp add: nd_binop_ones)
  qed
  then show ?thesis
    by (simp only: sequence_e_Inr)
qed

lemma grid_broadcast_shape:
  assumes "xi \<noteq> []" and "xy \<longrightarrow> 2 \<le> length xi"
  shows "broadcast_shape_list (map shape (grid_outputs xy xi)) = Inr (grid_shape xy xi)"
proof -
  let ?T = "grid_shape xy xi" and ?ss = "map shape (grid_outputs xy xi)"
  have ne: "?ss \<noteq> []"
    using assms(1) by (simp add: grid_outputs_def)
  have compat: "\<forall>s\<in>set ?ss. list_all2 (\<lambda>a b. a = 1 \<or> a = b) s ?T"
  proof
    fix s assume "s \<in> set ?ss"
    then obtain a where a: "a \<in> set (grid_outputs xy xi)" and s: "s = shape a"
      by auto
    from a assms(2) obtain i where "a = axis_array (length xi) (axis_of xy i) (xi ! i)"
      and "axis_of xy i < length xi" and "?T ! axis_of xy i = size_nd (xi ! i)"
      by (rule grid_outputs_cases)
    then show "list_all2 (\<lambda>a b. a = 1 \<or> a = b) s ?T"
      unfolding s by (simp only: axis_array_def ndarray.sel) (intro axis_compat, simp_all)
  qed
  have "map (\<lambda>k. if \<exists>s\<in>set ?ss. s ! k \<noteq> 1 then ?T ! k else 1) [0..<length ?T] = ?T"
  proof (intro nth_equalityI)
    show "length (map (\<lambda>k. if \<exists>s\<in>set ?ss. s ! k \<noteq> 1 then ?T ! k else 1) [0..<length ?T])
        = length ?T"
      by simp
  next
    fix k assume "k < length (map (\<lambda>k. if \<exists>s\<in>set ?ss. s ! k \<noteq> 1 then ?T ! k else 1)
        [0..<length ?T])"
    then have k: "k < length xi" by simp
    let ?i = "axis_of xy k"
    have i: "?i < length xi"
      using k assms(2) by (rule axis_of_less)
    have "shape (grid_outputs xy xi ! ?i) ! k = ?T ! k"
      using i k grid_shape_nth [OF i assms(2)]
      by (simp add: grid_outputs_nth axis_array_def nth_axis_unit)
    moreover have "shape (grid_outputs xy xi ! ?i) \<in> set ?ss"
      using i by simp
    ultimately have hit: "\<exists>s\<in>set ?ss. s ! k = ?T ! k"
      by blast
    have "(if \<exists>s\<in>set ?ss. s ! k \<noteq> 1 then ?T ! k else 1) = ?T ! k"
    proof (cases "?T ! k = 1")
      case True
      then show ?thesis by simp
    next
      case False
      with hit have "\<exists>s\<in>set ?ss. s ! k \<noteq> 1" by metis
      then show ?thesis by (simp only: if_True)
    qed
    moreover have "k < length ?T - 0"
      using k by simp
    ultimately show "map (\<lambda>k. if \<exists>s\<in>set ?ss. s ! k \<noteq> 1 then ?T ! k else 1) [0..<length ?T] ! k
        = ?T ! k"
      by (simp only: nth_map_upt add_0)
  qed
  with broadcast_shape_list_cover [OF ne compat] show ?thesis
    by (simp only:)
qed

lemma grid_broadcast_arrays:
  assumes "xi \<noteq> []" and "xy \<longrightarrow> 2 \<le> length xi"
  shows "broadcast_arrays (grid_outputs xy xi)
           = Inr (map (\<lambda>a. expand a (grid_shape xy xi)) (grid_outputs xy xi))"
  by (simp add: broadcast_arrays_def grid_broadcast_shape [OF assms])

lemma map_copy_nd [simp]: "map copy_nd xs = xs"
  by (induction xs) simp_all

text \<open>
  What \<open>meshgrid\<close> returns for two or more inputs: the outputs themselves in sparse
  mode; in dense mode every output seen with the full shape, each element multiplied
  by the integer 1 when \<open>copy\<close> is true.
\<close>

lemma meshgrid_many:
  assumes "2 \<le> length xi"
  shows "meshgrid mul xi kw =
     Inr (Many (if kwargs_get (kw_sparse kw) False
                then grid_outputs (kwargs_get (kw_indexing kw) ''xy'' = ''xy'') xi
                else map (map_nd (if kwargs_get (kw_copy kw) True then (\<lambda>v. mul v 1) else (\<lambda>v. v)))
                       (dense_grid (kwargs_get (kw_indexing kw) ''xy'' = ''xy'') xi)))"
proof -
  define xy where "xy = (kwargs_get (kw_indexing kw) ''xy'' = ''xy'')"
  have ne: "xi \<noteq> []" and n1: "length xi \<noteq> 1" and xy2: "xy \<longrightarrow> 2 \<le> length xi"
    using assms by auto
  have stage:
    "bind_e (if kwargs_get (kw_indexing kw) ''xy'' = ''xy''
             then switch_xy (grid_outputs False xi) (map size_nd xi)
             else Inr (grid_outputs False xi, map size_nd xi)) k
       = k (grid_outputs xy xi, grid_shape xy xi)" for k :: "_ \<Rightarrow> error + 'a grid"
    using assms by (simp add: xy_def switch_xy_grid grid_shape_def)
  have dense_copy:
    "bind_e (sequence_e (map (\<lambda>x. nd_binop mul x (ones (grid_shape xy xi))) (grid_outputs xy xi)))
       (\<lambda>r. Inr (Many r)) = Inr (Many (map (map_nd (\<lambda>v. mul v 1)) (dense_grid xy xi)))"
    by (simp add: grid_times_ones [OF xy2] dense_grid_def)
  have dense_view:
    "bind_e (broadcast_arrays (grid_outputs xy xi)) (\<lambda>r. Inr (Many r))
       = Inr (Many (dense_grid xy xi))"
    by (simp add: grid_broadcast_arrays [OF ne xy2] dense_grid_def)
  have ident: "map (map_nd (\<lambda>v. v)) (dense_grid xy xi) = dense_grid xy xi"
    by (induction "dense_grid xy xi") simp_all
  show ?thesis
    unfolding meshgrid_def Let_def atleast_1d_many [OF n1] grid.case length_map
      reshape_all bind_e_Inr sizes_grid_outputs_ij stage prod.case dense_copy dense_view
    by (simp add: xy_def map_idI)
qed

text \<open>The example of the specification, evaluated.\<close>

lemma example_sparse: "meshgrid numpy_mul example_vectors (no_kwargs\<lparr>kw_sparse := Some True\<rparr>)
    = Inr (Many [NDArray [1, 2] [I64 0, I64 1], NDArray [3, 1] [I64 0, I64 1, I64 2]])"
  by code_simp

lemma example_dense: "meshgrid numpy_mul example_vectors no_kwargs
    = Inr (Many [NDArray [3, 2] [I64 0, I64 1, I64 0, I64 1, I64 0, I64 1],
                 NDArray [3, 2] [I64 0, I64 0, I64 1, I64 1, I64 2, I64 2]])"
  by code_simp



lemma to_float64_max: "to_float64 18446744073709551615 = 18446744073709551616"
  by code_simp

lemma example_uint64_sparse:
  "meshgrid numpy_mul example_uint64 (no_kwargs\<lparr>kw_sparse := Some True\<rparr>)
    = Inr (Many [NDArray [1, 1] [U64 18446744073709551615], NDArray [2, 1] [U64 0, U64 1]])"
  by code_simp

lemma example_uint64_dense:
  "meshgrid numpy_mul example_uint64 no_kwargs
    = Inr (Many [NDArray [2, 1] [F64 18446744073709551616, F64 18446744073709551616],
                 NDArray [2, 1] [F64 0, F64 1]])"
  by code_simp

lemma example_uint64_view:
  "meshgrid numpy_mul example_uint64 (no_kwargs\<lparr>kw_copy := Some False\<rparr>)
    = Inr (Many [NDArray [2, 1] [U64 18446744073709551615, U64 18446744073709551615],
                 NDArray [2, 1] [U64 0, U64 1]])"
  by code_simp

lemma example_uint64_broadcast:
  "broadcast_arrays [NDArray [1, 1] [U64 18446744073709551615], NDArray [2, 1] [U64 0, U64 1]]
    = Inr [NDArray [2, 1] [U64 18446744073709551615, U64 18446744073709551615],
           NDArray [2, 1] [U64 0, U64 1]]"
  by code_simp

lemma meshgrid_small:
  assumes "length xi < 2"
    and "kwargs_get (kw_indexing kd) ''xy'' = kwargs_get (kw_indexing ks) ''xy''"
    and "kwargs_get (kw_copy kd) True = kwargs_get (kw_copy ks) True"
  shows "meshgrid mul xi kd = meshgrid mul xi ks"
proof (cases xi)
  case Nil
  then show ?thesis
    using assms(2,3)
    by (simp add: meshgrid_def atleast_1d_def switch_xy_def broadcast_arrays_def Let_def)
next
  case (Cons a t)
  with assms(1) have "xi = [a]" by simp
  then show ?thesis
    by (simp add: meshgrid_def atleast_1d_def)
qed

lemma meshgrid_single_empty:
  "size_nd a = 0 \<Longrightarrow> meshgrid mul [a] kw = Inl TypeError"
  by (simp add: meshgrid_def atleast_1d_def)

lemma meshgrid_single_nonempty:
  "0 < size_nd a \<Longrightarrow> meshgrid mul [a] kw = Inr (One (atleast_1d_one a))"
  by (simp add: meshgrid_def atleast_1d_def)

lemma meshgrid_no_vectors_any:
  "meshgrid mul [] kw =
     (if kwargs_get (kw_indexing kw) ''xy'' = ''xy'' then Inl IndexError else Inr (Many []))"
  by (simp add: meshgrid_def atleast_1d_def switch_xy_def broadcast_arrays_def Let_def)

text \<open>
  Claim C3, at the call with no coordinate vectors. \<open>np.atleast_1d()\<close> returns the
  empty list, which is a list, so the branch that raises \<open>TypeError\<close> (``0 given'') is
  not taken: with the default \<open>indexing = 'xy'\<close> the call fails with \<open>IndexError\<close> at
  \<open>output[0]\<close>, and with \<open>indexing = 'ij'\<close> it returns the empty list. The two
  single-argument cases of the claim are \<open>meshgrid_single_empty\<close> and
  \<open>meshgrid_single_nonempty\<close> above.
\<close>

theorem meshgrid_no_vectors:
  "meshgrid numpy_mul [] no_kwargs = Inl IndexError \<and>
   meshgrid numpy_mul [] (no_kwargs\<lparr>kw_indexing := Some ''ij''\<rparr>) = Inr (Many [])"
  by (simp add: meshgrid_no_vectors_any no_kwargs_def kwargs_get_def)

text \<open>
  Where sparse and dense output agree. For two or more coordinate vectors and either
  index order: \<open>meshgrid\<close> with \<open>sparse = True\<close> returns a list \<open>sp\<close> of as many arrays as
  inputs, \<open>meshgrid\<close> with \<open>sparse = False\<close> returns a list \<open>de\<close> of as many, and
  broadcasting the arrays of \<open>sp\<close> to their common shape gives exactly \<open>de\<close>, provided
  the dense call has \<open>copy = False\<close> or the product of an element with the integer 1
  is the element itself. For fewer than two inputs \<open>sparse\<close> is not read at all
  (\<open>meshgrid_small\<close>).
\<close>

lemma meshgrid_sparse_dense_exact:
  assumes "2 \<le> length xi"
    and "kwargs_get (kw_sparse ks) False" and "\<not> kwargs_get (kw_sparse kd) False"
    and "kwargs_get (kw_indexing kd) ''xy'' = kwargs_get (kw_indexing ks) ''xy''"
    and "\<not> kwargs_get (kw_copy kd) True \<or> (\<forall>v. mul v 1 = v)"
  shows "\<exists>sp de. meshgrid mul xi ks = Inr (Many sp) \<and> meshgrid mul xi kd = Inr (Many de) \<and>
           length sp = length xi \<and> length de = length xi \<and> broadcast_arrays sp = Inr de"
proof -
  define xy where "xy = (kwargs_get (kw_indexing ks) ''xy'' = ''xy'')"
  have "(if kwargs_get (kw_copy kd) True then (\<lambda>v. mul v 1) else (\<lambda>v. v)) = (\<lambda>v. v)"
    using assms(5) by auto
  then have "map (map_nd (if kwargs_get (kw_copy kd) True then (\<lambda>v. mul v 1) else (\<lambda>v. v)))
      (dense_grid xy xi) = dense_grid xy xi"
    by (simp add: map_idI)
  then have "meshgrid mul xi kd = Inr (Many (dense_grid xy xi))"
    using assms(3,4) by (simp add: meshgrid_many [OF assms(1)] xy_def)
  moreover have "meshgrid mul xi ks = Inr (Many (grid_outputs xy xi))"
    using assms(2) by (simp add: meshgrid_many [OF assms(1)] xy_def)
  moreover have "broadcast_arrays (grid_outputs xy xi) = Inr (dense_grid xy xi)"
    unfolding dense_grid_def using assms(1) by (intro grid_broadcast_arrays) auto
  ultimately show ?thesis
    by (simp add: dense_grid_def)
qed

text \<open>
  Claim C7, at two \<open>uint64\<close> vectors with the default options. The sparse call returns
  the vectors as they are, and broadcasting them keeps \<open>2^64 - 1\<close>. The dense call
  multiplies by \<open>np.ones(shape, dtype=int)\<close>: numpy promotes \<open>uint64 * int64\<close> to
  \<open>float64\<close>, and \<open>2^64 - 1\<close> comes back as the float \<open>2^64\<close>. The dense call with
  \<open>copy = False\<close> returns the exact elements, as the docstring says of every mode.
\<close>

theorem meshgrid_sparse_dense_uint64:
  "meshgrid numpy_mul example_uint64 (no_kwargs\<lparr>kw_sparse := Some True\<rparr>)
     = Inr (Many [NDArray [1, 1] [U64 18446744073709551615], NDArray [2, 1] [U64 0, U64 1]]) \<and>
   broadcast_arrays [NDArray [1, 1] [U64 18446744073709551615], NDArray [2, 1] [U64 0, U64 1]]
     = Inr [NDArray [2, 1] [U64 18446744073709551615, U64 18446744073709551615],
            NDArray [2, 1] [U64 0, U64 1]] \<and>
   meshgrid numpy_mul example_uint64 no_kwargs
     = Inr (Many [NDArray [2, 1] [F64 18446744073709551616, F64 18446744073709551616],
                  NDArray [2, 1] [F64 0, F64 1]]) \<and>
   meshgrid numpy_mul example_uint64 (no_kwargs\<lparr>kw_copy := Some False\<rparr>)
     = Inr (Many [NDArray [2, 1] [U64 18446744073709551615, U64 18446744073709551615],
                  NDArray [2, 1] [U64 0, U64 1]])"
  by (intro conjI example_uint64_sparse example_uint64_broadcast example_uint64_dense
      example_uint64_view)









end
